theory Spec2Isabelle
  imports Main "HOL-Library.AList" "HOL-Library.Signed_Division" "HOL-Library.Multiset"
begin

section \<open>Redis manager: one primary, a list of replicas\<close>

text \<open>
  A \<^verbatim>\<open>*redis.Client\<close> is a handle (the identity of the Go object) opened for an address.
  \<^verbatim>\<open>RedisManger\<close> keeps the primary client and the slice of replica clients; the
  other fields of the Go struct (\<^verbatim>\<open>maxBatches\<close>, \<^verbatim>\<open>sentinelOpts\<close>, the mutex and the random
  source) are either unused by the functions below or passed to them as arguments.
\<close>

record client =
  handle :: nat
  addr :: string

record RedisManger =
  masterClient :: client
  slaveClients :: "client list"

text \<open>What a call does besides returning: log lines, connections opened, probed and
  closed, the mutex, and the assignment to \<^verbatim>\<open>r.slaveClients\<close>, in program order.\<close>

datatype event =
    Lock
  | Unlock
  | LogWarn string
  | LogError string
  | NewClient client
  | Ping client bool
  | Close client
  | Assign "client list"

datatype 'a outcome = Returned 'a | Panicked

text \<open>
  \<^verbatim>\<open>selectReadClient\<close>: with replicas present, the client at index
  \<^verbatim>\<open>r.rand.Intn(len(r.slaveClients))\<close>; otherwise a warning and the primary. The error
  result is \<^verbatim>\<open>nil\<close> on both paths (\<open>None\<close>). \<open>draw\<close> is the number the random source
  answers when asked; an index outside the slice is Go's index-out-of-range panic.
\<close>

definition selectReadClient ::
  "nat \<Rightarrow> RedisManger \<Rightarrow> (client \<times> string option) outcome \<times> event list" where
  "selectReadClient draw r =
     (if length (slaveClients r) > 0 then
        (let idx = draw in
         if idx < length (slaveClients r)
         then (Returned (slaveClients r ! idx, None), [])
         else (Panicked, []))
      else
        (Returned (masterClient r, None),
         [LogWarn ''no slave clients available, use master client for read'']))"

text \<open>The address rewrite of the probe loop (container addresses to host ports).\<close>

definition rewrite_addr :: "string \<Rightarrow> string" where
  "rewrite_addr a =
     (if a = ''172.28.0.10:6379'' then ''localhost:6379''
      else if a = ''172.28.0.11:6379'' then ''localhost:6380''
      else if a = ''172.28.0.12:6379'' then ''localhost:6381''
      else a)"

text \<open>
  The probe loop of \<^verbatim>\<open>refreshSlaveClientsLoop\<close>: for each address a new client is
  opened (handles are numbered from \<open>n\<close>) and pinged; \<open>up\<close> is the set of addresses that
  answer. A client that does not answer is closed and skipped.
\<close>

fun probe :: "string set \<Rightarrow> nat \<Rightarrow> string list \<Rightarrow> client list \<times> event list" where
  "probe up n [] = ([], [])"
| "probe up n (a # as) =
     (let c = \<lparr>handle = n, addr = rewrite_addr a\<rparr>;
          (cs, evs) = probe up (Suc n) as
      in if addr c \<in> up
         then (c # cs, NewClient c # Ping c True # evs)
         else (cs, NewClient c # Ping c False # Close c # evs))"

text \<open>
  One tick of \<^verbatim>\<open>refreshSlaveClientsLoop\<close> (the body of \<^verbatim>\<open>for range ticker.C\<close>).
  \<open>addrs\<close> is what \<^verbatim>\<open>getSlaveAddrs\<close> returned: \<open>Inl e\<close> for an error (the address slice
  is then \<^verbatim>\<open>nil\<close>), \<open>Inr as\<close> for the addresses found.
\<close>

definition refreshSlaveClients ::
  "(string + string list) \<Rightarrow> string set \<Rightarrow> nat \<Rightarrow> RedisManger \<Rightarrow> RedisManger \<times> event list" where
  "refreshSlaveClients addrs up n r =
     (let (slaveAddrs, err) = (case addrs of Inl e \<Rightarrow> ([], Some e) | Inr as \<Rightarrow> (as, None));
          ev1 = (case err of Some e \<Rightarrow> [LogError (''get slave addresses failed: '' @ e)] | None \<Rightarrow> []);
          (new_clients, ev2) = probe up n slaveAddrs
      in case err of
           Some e \<Rightarrow>
             (r, [Lock] @ ev1 @ ev2 @ [LogError (''refresh slave clients failed: '' @ e), Unlock])
         | None \<Rightarrow>
             (r\<lparr>slaveClients := new_clients\<rparr>,
              [Lock] @ ev1 @ ev2 @ map Close (slaveClients r) @ [Assign new_clients, Unlock]))"

section \<open>The key/value store\<close>

text \<open>
  The Redis commands the handlers use, over one logical store: a key holds a string or a
  hash (an association list of fields), with an optional expiry instant. Time is the
  number of milliseconds since an arbitrary origin. A key whose expiry instant has been
  reached is gone. The primary and the replicas are taken to show the same store.
\<close>

datatype rvalue = RString string | RHash "(string \<times> string) list"

record rentry =
  rval :: rvalue
  expire_at :: "nat option"

type_synonym redis = "string \<Rightarrow> rentry option"

definition live :: "redis \<Rightarrow> nat \<Rightarrow> string \<Rightarrow> rentry option" where
  "live db now k =
     (case db k of
        None \<Rightarrow> None
      | Some e \<Rightarrow>
          (case expire_at e of
             None \<Rightarrow> Some e
           | Some t \<Rightarrow> if t \<le> now then None else Some e))"

text \<open>Reading a field of a Go \<^verbatim>\<open>map[string]string\<close>: the empty string when absent.\<close>

definition hget :: "(string \<times> string) list \<Rightarrow> string \<Rightarrow> string" where
  "hget h f = (case map_of h f of None \<Rightarrow> [] | Some v \<Rightarrow> v)"

definition set_fields :: "(string \<times> string) list \<Rightarrow> (string \<times> string) list \<Rightarrow> (string \<times> string) list" where
  "set_fields fvs h = foldl (\<lambda>acc fv. AList.update (fst fv) (snd fv) acc) h fvs"

text \<open>\<^verbatim>\<open>HSET\<close>: on a key that holds a string the command fails (WRONGTYPE) and changes
  nothing; the callers below do not look at its result.\<close>

definition HSet :: "redis \<Rightarrow> nat \<Rightarrow> string \<Rightarrow> (string \<times> string) list \<Rightarrow> redis" where
  "HSet db now k fvs =
     (case live db now k of
        None \<Rightarrow> db(k \<mapsto> \<lparr>rval = RHash (set_fields fvs []), expire_at = None\<rparr>)
      | Some e \<Rightarrow>
          (case rval e of
             RHash h \<Rightarrow> db(k \<mapsto> e\<lparr>rval := RHash (set_fields fvs h)\<rparr>)
           | RString _ \<Rightarrow> db))"

definition Expire :: "redis \<Rightarrow> nat \<Rightarrow> string \<Rightarrow> nat \<Rightarrow> redis" where
  "Expire db now k ttl =
     (case live db now k of
        None \<Rightarrow> db
      | Some e \<Rightarrow> db(k \<mapsto> e\<lparr>expire_at := Some (now + ttl)\<rparr>))"

definition SetNX :: "redis \<Rightarrow> nat \<Rightarrow> string \<Rightarrow> string \<Rightarrow> nat \<Rightarrow> bool \<times> redis" where
  "SetNX db now k v ttl =
     (case live db now k of
        None \<Rightarrow> (True, db(k \<mapsto> \<lparr>rval = RString v, expire_at = Some (now + ttl)\<rparr>))
      | Some _ \<Rightarrow> (False, db))"

text \<open>\<^verbatim>\<open>HGETALL\<close>: \<open>fault\<close> is a connection error of this call, if any. A missing key gives
  the empty map and no error.\<close>

definition HGetAll ::
  "string option \<Rightarrow> redis \<Rightarrow> nat \<Rightarrow> string \<Rightarrow> (string \<times> string) list \<times> string option" where
  "HGetAll fault db now k =
     (case fault of
        Some e \<Rightarrow> ([], Some e)
      | None \<Rightarrow>
          (case live db now k of
             None \<Rightarrow> ([], None)
           | Some e \<Rightarrow>
               (case rval e of
                  RHash h \<Rightarrow> (h, None)
                | RString _ \<Rightarrow> ([], Some ''WRONGTYPE''))))"

section \<open>Keys, constants and the external capabilities\<close>

definition ResultCachePrefix :: string where "ResultCachePrefix = ''query-result:''"
definition FuzzyCachePrefix :: string where "FuzzyCachePrefix = ''fuzzy:cache:''"
definition FuzzyLockPrefix :: string where "FuzzyLockPrefix = ''fuzzy:lock:''"
definition FuzzyQueueName :: string where "FuzzyQueueName = ''fuzzy-query-queue''"
definition FuzzyCacheExpire :: nat where "FuzzyCacheExpire = 10 * 60 * 1000"
definition UserTypeVIP :: string where "UserTypeVIP = ''vip''"

text \<open>
  What the code takes from libraries: the MD5 digest of \<^verbatim>\<open>generateKeywordHash\<close>, and
  \<^verbatim>\<open>encoding/json\<close>. A value of Go's \<^verbatim>\<open>interface{}\<close> is \<open>'v option\<close>, \<open>None\<close> being \<^verbatim>\<open>nil\<close>.
  \<open>marshal\<close> is \<^verbatim>\<open>json.Marshal\<close> on such a value with the error dropped, as the callers
  do (\<^verbatim>\<open>resultJSON, _ := json.Marshal(...)\<close>, then \<^verbatim>\<open>string(resultJSON)\<close>: the empty text when
  \<^verbatim>\<open>json.Marshal\<close> fails); \<open>unmarshal\<close> is \<^verbatim>\<open>json.Unmarshal\<close> into an \<^verbatim>\<open>interface{}\<close>
  with the error dropped (the
  target stays \<^verbatim>\<open>nil\<close> on an error, and is \<^verbatim>\<open>nil\<close> for \<^verbatim>\<open>null\<close>); \<open>marshal_msg\<close> and
  \<open>unmarshal_msg\<close> are the same two functions on a \<^verbatim>\<open>map[string]string\<close>, where
  \<open>None\<close> is the error of \<^verbatim>\<open>json.Unmarshal\<close>.
\<close>

record 'v ext =
  generateKeywordHash :: "string \<Rightarrow> string"
  marshal :: "'v option \<Rightarrow> string"
  unmarshal :: "string \<Rightarrow> 'v option"
  marshal_msg :: "(string \<times> string) list \<Rightarrow> string"
  unmarshal_msg :: "string \<Rightarrow> (string \<times> string) list option"

definition GetFuzzyCacheKey :: "'v ext \<Rightarrow> string \<Rightarrow> string" where
  "GetFuzzyCacheKey x keyword = FuzzyCachePrefix @ generateKeywordHash x keyword"

definition GetFuzzyLockKey :: "'v ext \<Rightarrow> string \<Rightarrow> string" where
  "GetFuzzyLockKey x keyword = FuzzyLockPrefix @ generateKeywordHash x keyword"

text \<open>
  \<^verbatim>\<open>GetDataByKey\<close> returns the data, the status and the error. On the ready path the
  status returned is the empty string. (The read client is chosen by \<open>selectReadClient\<close>,
  whose error is always nil; all clients read the one store.)
\<close>

definition GetDataByKey ::
  "'v ext \<Rightarrow> string option \<Rightarrow> redis \<Rightarrow> nat \<Rightarrow> string \<Rightarrow> 'v option \<times> string \<times> string option" where
  "GetDataByKey x fault db now cacheKey =
     (let (cacheData, err) = HGetAll fault db now cacheKey in
      if err = None \<and> length cacheData > 0 \<and> hget cacheData ''status'' = ''ready''
      then (unmarshal x (hget cacheData ''data''), [], None)
      else (None, hget cacheData ''status'', err))"

section \<open>Submitting a query and polling for its result\<close>

text \<open>
  The state the handlers share: the store and the messages published so far (queue
  name, body, priority), oldest first.
\<close>

record world =
  redis :: redis
  mq :: "(string \<times> string \<times> nat) list"

text \<open>
  Modelled from the spec: \<^verbatim>\<open>PublishPriorityMQ\<close> is called by \<^verbatim>\<open>SubmitFuzzyQuery\<close> but its
  body is not among the sources (only \<^verbatim>\<open>PublishMQ\<close> is). Following the spec's durable
  queue (publish with a priority attribute) and \<^verbatim>\<open>PublishMQ\<close>, it either returns an
  error and publishes nothing, or appends the message with its priority.
\<close>

definition PublishPriorityMQ ::
  "string option \<Rightarrow> (string \<times> string \<times> nat) list \<Rightarrow> string \<Rightarrow> string \<Rightarrow> nat
     \<Rightarrow> string option \<times> (string \<times> string \<times> nat) list" where
  "PublishPriorityMQ fault q queueName body priority =
     (case fault of
        Some e \<Rightarrow> (Some e, q)
      | None \<Rightarrow> (None, q @ [(queueName, body, priority)]))"

text \<open>
  What a handler answers: a JSON response (\<^verbatim>\<open>until.Response\<close>: code, message, data), a
  \<^verbatim>\<open>BusinessError\<close> handed to \<^verbatim>\<open>c.Error\<close> (code, message), or nothing at all. The messages
  of the source are Chinese; they are given here in English.
\<close>

datatype 'v rdata =
    Payload "'v option"
  | PollTicket string string
  | Progress string nat

datatype 'v response =
    Response int string "'v rdata"
  | BusinessError int string
  | NoReply

text \<open>
  What one call of \<^verbatim>\<open>SubmitFuzzyQuery\<close> gets from outside: the clock, the user type set
  by the middleware, the connection errors of the calls whose error the handler
  inspects, the two identifiers \<^verbatim>\<open>GenerateReqID\<close> returns, and the formatted time.
\<close>

record submit_env =
  s_now :: nat
  s_user_type :: string
  s_get_fault :: "string option"
  s_setnx_fault :: "string option"
  s_publish_fault :: "string option"
  s_reqID :: string
  s_lockVal :: string
  s_stamp :: string

text \<open>Steps 6 and 7 of \<^verbatim>\<open>SubmitFuzzyQuery\<close>: store the request handle, answer with the ticket.\<close>

definition submit_ticket ::
  "'v ext \<Rightarrow> submit_env \<Rightarrow> string \<Rightarrow> redis \<Rightarrow> (string \<times> string \<times> nat) list \<Rightarrow> 'v response \<times> world" where
  "submit_ticket x env keyword db q =
     (let reqStatusKey = ResultCachePrefix @ s_reqID env;
          db1 = HSet db (s_now env) reqStatusKey
                  [(''status'', ''pending''), (''keyword'', keyword),
                   (''cache_key'', GetFuzzyCacheKey x keyword)];
          db2 = Expire db1 (s_now env) reqStatusKey (5 * 60 * 1000)
      in (Response 1 ''query in progress, poll for the result''
            (PollTicket (s_reqID env) (''/api/public/query/fuzzy/result?req_id='' @ s_reqID env)),
          \<lparr>redis = db2, mq = q\<rparr>))"

text \<open>
  \<^verbatim>\<open>SubmitFuzzyQuery\<close> from step 3 on, given what step 2 (\<open>GetDataByKey\<close>) returned. The
  store it acts on may have changed since the read, when another request ran in between.
\<close>

definition SubmitFuzzyQuery_after_read ::
  "'v ext \<Rightarrow> submit_env \<Rightarrow> string \<Rightarrow> 'v option \<times> string \<times> string option \<Rightarrow> world
     \<Rightarrow> 'v response \<times> world" where
  "SubmitFuzzyQuery_after_read x env keyword rd w =
     (let priority = (if s_user_type env = UserTypeVIP then 10 else 0);
          cacheKey = GetFuzzyCacheKey x keyword;
          lockKey = GetFuzzyLockKey x keyword;
          (data, status, err) = rd
      in case err of
           Some e \<Rightarrow> (BusinessError 500 (''get data failed: '' @ e), w)
         | None \<Rightarrow>
        (case data of
           Some d \<Rightarrow> (Response 0 ''ok'' (Payload (Some d)), w)
         | None \<Rightarrow>
        (case s_setnx_fault env of
           Some e \<Rightarrow> (BusinessError 500 (''get lock failed: '' @ e), w)
         | None \<Rightarrow>
        (let (lockSuccess, db1) = SetNX (redis w) (s_now env) lockKey (s_lockVal env) (5 * 1000) in
         if lockSuccess \<and> status \<noteq> ''loading'' then
           (let db2 = HSet db1 (s_now env) cacheKey
                        [(''status'', ''loading''), (''keyword'', keyword),
                         (''create_time'', s_stamp env)];
                db3 = Expire db2 (s_now env) cacheKey FuzzyCacheExpire;
                msgJSON = marshal_msg x [(''keyword'', keyword)]
            in case PublishPriorityMQ (s_publish_fault env) (mq w) FuzzyQueueName msgJSON priority of
                 (Some e, q) \<Rightarrow>
                   (BusinessError 500
                      (''publish fuzzy query MQ message failed keyword:'' @ keyword @ '' error:'' @ e),
                    \<lparr>redis = db3, mq = q\<rparr>)
               | (None, q) \<Rightarrow> submit_ticket x env keyword db3 q)
         else submit_ticket x env keyword db1 (mq w)))))"

text \<open>\<^verbatim>\<open>SubmitFuzzyQuery\<close>: the keyword check, the read of the cache, and the rest.\<close>

definition SubmitFuzzyQuery :: "'v ext \<Rightarrow> submit_env \<Rightarrow> string \<Rightarrow> world \<Rightarrow> 'v response \<times> world" where
  "SubmitFuzzyQuery x env keyword w =
     (if keyword = [] then (BusinessError 400 ''bad parameter: keyword must not be empty'', w)
      else SubmitFuzzyQuery_after_read x env keyword
             (GetDataByKey x (s_get_fault env) (redis w) (s_now env) (GetFuzzyCacheKey x keyword)) w)"

text \<open>
  \<^verbatim>\<open>GetFuzzyQueryResult\<close>; \<open>fault1\<close> and \<open>fault2\<close> are the connection errors of its two
  reads. (\<^verbatim>\<open>GetSlaveClient\<close> cannot fail, since \<open>selectReadClient\<close> never returns an error.)
  The \<^verbatim>\<open>switch\<close> has no default: any other status writes no response.
\<close>

definition GetFuzzyQueryResult ::
  "'v ext \<Rightarrow> string option \<Rightarrow> string option \<Rightarrow> redis \<Rightarrow> nat \<Rightarrow> string \<Rightarrow> 'v response" where
  "GetFuzzyQueryResult x fault1 fault2 db now reqID =
     (if reqID = [] then BusinessError 400 ''bad parameter: req_id must not be empty''
      else
        let reqStatusKey = ResultCachePrefix @ reqID;
            (statusMap, err) = HGetAll fault1 db now reqStatusKey
        in if err \<noteq> None \<or> length statusMap = 0
           then BusinessError 404 ''request does not exist or has expired''
           else
             let cacheKey = hget statusMap ''cache_key'';
                 (cacheData, err2) = HGetAll fault2 db now cacheKey
             in if err2 \<noteq> None \<or> length cacheData = 0
                then Response 1 ''query in progress, poll again in 1 second'' (Progress reqID 50)
                else if hget cacheData ''status'' = ''loading''
                then Response 1 ''query in progress, poll again in 1 second'' (Progress reqID 70)
                else if hget cacheData ''status'' = ''failed''
                then BusinessError 500 (''query failed: '' @ hget cacheData ''error_msg'')
                else if hget cacheData ''status'' = ''ready''
                then Response 0 ''ok'' (Payload (unmarshal x (hget cacheData ''data'')))
                else NoReply)"

section \<open>The fuzzy-query consumer\<close>

text \<open>
  What \<^verbatim>\<open>GetMongoDataFuzzyByKeyword\<close> does when called by the consumer: it returns a
  result list, returns an error (the list is then \<^verbatim>\<open>nil\<close>), or panics.
\<close>

datatype 'v search = Found 'v | SearchError string | SearchPanic

datatype wevent =
    WLogInfo string
  | WLogError string
  | WSearch string
  | WHSet string "(string \<times> string) list"
  | WExpire string nat
  | WAck
  | WNack bool

text \<open>
  The body of the goroutine \<^verbatim>\<open>startFuzzyQueryConsumer\<close> starts for one delivery, with its
  deferred \<^verbatim>\<open>recover\<close>: the new store and what it did, in program order.
\<close>

definition startFuzzyQueryConsumer_job ::
  "'v ext \<Rightarrow> (string \<Rightarrow> 'v search) \<Rightarrow> nat \<Rightarrow> string \<Rightarrow> string \<Rightarrow> redis \<Rightarrow> redis \<times> wevent list" where
  "startFuzzyQueryConsumer_job x search now stamp body db =
     (case unmarshal_msg x body of
        None \<Rightarrow> (db, [WLogError ''parse fuzzy query message failed'', WAck])
      | Some msgData \<Rightarrow>
          (let keyword = hget msgData ''keyword'';
               cacheKey = GetFuzzyCacheKey x keyword;
               ev0 = [WLogInfo ''start fuzzy query'', WSearch keyword]
           in case search keyword of
                SearchPanic \<Rightarrow> (db, ev0 @ [WLogError ''fuzzy query consumer panic'', WNack True])
              | r \<Rightarrow>
                  (let resultList = (case r of Found v \<Rightarrow> Some v | _ \<Rightarrow> None);
                       ev1 = (case r of SearchError e \<Rightarrow> [WLogError (''fuzzy query database failed: '' @ e)]
                                      | _ \<Rightarrow> []);
                       fields = [(''status'', ''ready''), (''data'', marshal x resultList),
                                 (''update_time'', stamp)];
                       db1 = HSet db now cacheKey fields;
                       db2 = Expire db1 now cacheKey FuzzyCacheExpire
                   in (db2, ev0 @ ev1 @ [WLogInfo ''fuzzy query succeeded'', WHSet cacheKey fields,
                                         WExpire cacheKey FuzzyCacheExpire, WAck]))))"

section \<open>Search results: one document per title, latest first\<close>

text \<open>
  A BSON value as far as \<^verbatim>\<open>deduplicateAndSort\<close> looks at it; \<^verbatim>\<open>bson.M\<close> is an association
  list read with \<open>map_of\<close>. A \<^verbatim>\<open>primitive.DateTime\<close> is a number of milliseconds (an
  \<^verbatim>\<open>int64\<close>; nothing below can overflow, so it is an \<open>int\<close>).
\<close>

datatype bson =
    BNull
  | BInt int
  | BString string
  | BDateTime int
  | BDoc "(string \<times> bson) list"
  | BArray "bson list"

type_synonym bsonM = "(string \<times> bson) list"

text \<open>
  The checked type assertions at the head of the loop body: the \<^verbatim>\<open>hotitem\<close> must be a
  document, its \<^verbatim>\<open>title\<close> a string and its \<^verbatim>\<open>crawledat\<close> a date-time; otherwise the document
  is skipped.
\<close>

definition doc_fields :: "bsonM \<Rightarrow> (string \<times> int) option" where
  "doc_fields doc =
     (case map_of doc ''hotitem'' of
        Some (BDoc hotitem) \<Rightarrow>
          (case (map_of hotitem ''title'', map_of hotitem ''crawledat'') of
             (Some (BString title), Some (BDateTime crawledAtRaw)) \<Rightarrow> Some (title, crawledAtRaw)
           | _ \<Rightarrow> None)
      | _ \<Rightarrow> None)"

text \<open>The unchecked assertions \<^verbatim>\<open>doc["hotitem"].(bson.M)["crawledat"].(primitive.DateTime)\<close>
  made on a document already kept, and by the comparison of the sort: they panic when
  they fail.\<close>

definition crawledat_unchecked :: "bsonM \<Rightarrow> int outcome" where
  "crawledat_unchecked doc =
     (case map_of doc ''hotitem'' of
        Some (BDoc hotitem) \<Rightarrow>
          (case map_of hotitem ''crawledat'' of
             Some (BDateTime t) \<Rightarrow> Returned t
           | _ \<Rightarrow> Panicked)
      | _ \<Rightarrow> Panicked)"

text \<open>\<^verbatim>\<open>time.Unix(int64(raw)/1000, 0)\<close>: Go's integer division truncates towards zero, and
  the nanoseconds are zero, so the instant compared by \<^verbatim>\<open>After\<close> is a number of seconds.\<close>

definition unix_seconds :: "int \<Rightarrow> int" where
  "unix_seconds raw = raw sdiv 1000"

text \<open>The first loop, over the map \<^verbatim>\<open>seen\<close> from titles to documents.\<close>

fun dedup_loop :: "bsonM list \<Rightarrow> (string \<times> bsonM) list \<Rightarrow> (string \<times> bsonM) list outcome" where
  "dedup_loop [] seen = Returned seen"
| "dedup_loop (doc # docs) seen =
     (case doc_fields doc of
        None \<Rightarrow> dedup_loop docs seen
      | Some (title, crawledAtRaw) \<Rightarrow>
          (case map_of seen title of
             None \<Rightarrow> dedup_loop docs (AList.update title doc seen)
           | Some existingDoc \<Rightarrow>
               (case crawledat_unchecked existingDoc of
                  Panicked \<Rightarrow> Panicked
                | Returned existingCrawledAtRaw \<Rightarrow>
                    if unix_seconds crawledAtRaw > unix_seconds existingCrawledAtRaw
                    then dedup_loop docs (AList.update title doc seen)
                    else dedup_loop docs seen)))"

text \<open>
  \<^verbatim>\<open>sort.Slice\<close> with \<^verbatim>\<open>timeI > timeJ\<close>: descending by the raw milliseconds. With fewer than
  two documents nothing is compared. The sort of the model is stable; the order Go gives
  to documents of equal time is covered by the order \<open>iter\<close> below.
\<close>

definition sort_key_desc :: "bsonM \<Rightarrow> int" where
  "sort_key_desc doc = (case crawledat_unchecked doc of Returned t \<Rightarrow> - t | Panicked \<Rightarrow> 0)"

definition sort_by_crawledat :: "bsonM list \<Rightarrow> bsonM list outcome" where
  "sort_by_crawledat ds =
     (if length ds < 2 then Returned ds
      else if list_all (\<lambda>d. crawledat_unchecked d \<noteq> Panicked) ds
      then Returned (sort_key sort_key_desc ds)
      else Panicked)"

text \<open>
  \<^verbatim>\<open>deduplicateAndSort\<close>. \<open>iter\<close> is the order in which \<^verbatim>\<open>range seen\<close> visits the map, which
  Go leaves unspecified. \<^verbatim>\<open>uniqueDocs[:limit]\<close> panics for a negative limit.
\<close>

definition deduplicateAndSort ::
  "((string \<times> bsonM) list \<Rightarrow> bsonM list) \<Rightarrow> bsonM list \<Rightarrow> int \<Rightarrow> bsonM list outcome" where
  "deduplicateAndSort iter docs limit =
     (case dedup_loop docs [] of
        Panicked \<Rightarrow> Panicked
      | Returned seen \<Rightarrow>
          (case sort_by_crawledat (iter seen) of
             Panicked \<Rightarrow> Panicked
           | Returned uniqueDocs \<Rightarrow>
               if int (length uniqueDocs) > limit
               then (if limit < 0 then Panicked else Returned (take (nat limit) uniqueDocs))
               else Returned uniqueDocs))"

text \<open>The title under which a document is filed, when it has the expected fields.\<close>

definition title_of :: "bsonM \<Rightarrow> string option" where
  "title_of d = map_option fst (doc_fields d)"

text \<open>
  The invariant of the first loop, \<open>visited\<close> being the documents gone through so far:
  the titles of \<^verbatim>\<open>seen\<close> are distinct; the document filed under a title is a visited
  document with that title, and no visited document of that title has a later second;
  and every visited well-formed document has its title in \<^verbatim>\<open>seen\<close>.
\<close>

definition seen_ok :: "bsonM list \<Rightarrow> (string \<times> bsonM) list \<Rightarrow> bool" where
  "seen_ok visited seen \<longleftrightarrow>
     distinct (map fst seen)
     \<and> (\<forall>t d. map_of seen t = Some d \<longrightarrow>
           d \<in> set visited
           \<and> (\<exists>ms. doc_fields d = Some (t, ms)
                 \<and> (\<forall>d' ms'. d' \<in> set visited \<and> doc_fields d' = Some (t, ms')
                        \<longrightarrow> unix_seconds ms' \<le> unix_seconds ms)))
     \<and> (\<forall>d' t ms'. d' \<in> set visited \<and> doc_fields d' = Some (t, ms') \<longrightarrow> map_of seen t \<noteq> None)"

section \<open>What a reader finds under a key\<close>

text \<open>
  The hash record a reader finds under a key at an instant: none when the key is
  missing or expired, holds no field, or is not a hash.
\<close>

definition observe :: "redis \<Rightarrow> nat \<Rightarrow> string \<Rightarrow> (string \<times> string) list option" where
  "observe db now k =
     (case live db now k of
        None \<Rightarrow> None
      | Some e \<Rightarrow> (case rval e of RHash h \<Rightarrow> if h = [] then None else Some h | RString _ \<Rightarrow> None))"

text \<open>
  The order of the spec on the status of a cache entry: absent, then \<^verbatim>\<open>loading\<close>, then
  \<^verbatim>\<open>ready\<close> or \<^verbatim>\<open>failed\<close>. A record with any other status counts as absent.
\<close>

definition status_rank :: "(string \<times> string) list option \<Rightarrow> nat" where
  "status_rank entry =
     (case entry of
        None \<Rightarrow> 0
      | Some h \<Rightarrow>
          if hget h ''status'' = ''loading'' then 1
          else if hget h ''status'' = ''ready'' \<or> hget h ''status'' = ''failed'' then 2
          else 0)"

section \<open>A concrete instance for evaluation\<close>

text \<open>
  To run the model on concrete inputs the external capabilities need values. Here a
  JSON document is represented by its text (\<^verbatim>\<open>null\<close> for \<^verbatim>\<open>nil\<close>; the empty text is no
  document: \<^verbatim>\<open>json.Unmarshal\<close> fails on it and leaves \<^verbatim>\<open>nil\<close>), a queue message
  \<^verbatim>\<open>{"keyword": k}\<close> by the text \<^verbatim>\<open>keyword=k\<close>, and the digest by the reversed keyword.
  \<open>search_down\<close> is a search whose database does not answer.
\<close>

definition demo_ext :: "string ext" where
  "demo_ext =
     \<lparr>generateKeywordHash = rev,
      marshal = (\<lambda>v. case v of None \<Rightarrow> ''null'' | Some s \<Rightarrow> s),
      unmarshal = (\<lambda>s. if s = [] \<or> s = ''null'' then None else Some s),
      marshal_msg = (\<lambda>m. ''keyword='' @ hget m ''keyword''),
      unmarshal_msg = (\<lambda>b. if take 8 b = ''keyword='' then Some [(''keyword'', drop 8 b)] else None)\<rparr>"

definition search_down :: "string \<Rightarrow> string search" where
  "search_down keyword = SearchError ''server selection timeout''"

definition demo_env :: "nat \<Rightarrow> string \<Rightarrow> submit_env" where
  "demo_env t r =
     \<lparr>s_now = t, s_user_type = ''normal'', s_get_fault = None, s_setnx_fault = None,
      s_publish_fault = None, s_reqID = r, s_lockVal = ''lock-'' @ r, s_stamp = ''12:00:00''\<rparr>"

definition empty_world :: world where
  "empty_world = \<lparr>redis = Map.empty, mq = []\<rparr>"

definition search_hit :: "string \<Rightarrow> string search" where
  "search_hit keyword = Found ''[1,2]''"

text \<open>A store with four request handles: the cache entry of the first is absent, that of
  the second loading, of the third ready, of the fourth failed.\<close>

definition poll_db :: redis where
  "poll_db =
     [''query-result:r1'' \<mapsto>
        \<lparr>rval = RHash [(''status'', ''pending''), (''keyword'', ''a''), (''cache_key'', ''fuzzy:cache:a'')],
         expire_at = Some 300000\<rparr>,
      ''query-result:r2'' \<mapsto>
        \<lparr>rval = RHash [(''status'', ''pending''), (''keyword'', ''b''), (''cache_key'', ''fuzzy:cache:b'')],
         expire_at = Some 300000\<rparr>,
      ''query-result:r3'' \<mapsto>
        \<lparr>rval = RHash [(''status'', ''pending''), (''keyword'', ''c''), (''cache_key'', ''fuzzy:cache:c'')],
         expire_at = Some 300000\<rparr>,
      ''query-result:r4'' \<mapsto>
        \<lparr>rval = RHash [(''status'', ''pending''), (''keyword'', ''d''), (''cache_key'', ''fuzzy:cache:d'')],
         expire_at = Some 300000\<rparr>,
      ''fuzzy:cache:b'' \<mapsto>
        \<lparr>rval = RHash [(''status'', ''loading''), (''keyword'', ''b'')], expire_at = Some 600000\<rparr>,
      ''fuzzy:cache:c'' \<mapsto>
        \<lparr>rval = RHash [(''status'', ''ready''), (''data'', ''[1,2]'')], expire_at = Some 600000\<rparr>,
      ''fuzzy:cache:d'' \<mapsto>
        \<lparr>rval = RHash [(''status'', ''failed''), (''error_msg'', ''boom'')], expire_at = Some 600000\<rparr>]"

text \<open>
  A run from the empty store: a submission of \<^verbatim>\<open>go\<close> at time 0, the consumer's job for the
  message it published, run at one second with the database down, and a second
  submission of \<^verbatim>\<open>go\<close> at six seconds.
\<close>

definition trace_w1 :: world where
  "trace_w1 = snd (SubmitFuzzyQuery demo_ext (demo_env 0 ''r1'') ''go'' empty_world)"

definition trace_db2 :: redis where
  "trace_db2 = fst (startFuzzyQueryConsumer_job demo_ext search_down 1000 ''12:00:01''
                      ''keyword=go'' (redis trace_w1))"

definition trace_w3 :: world where
  "trace_w3 = snd (SubmitFuzzyQuery demo_ext (demo_env 6000 ''r2'') ''go''
                     \<lparr>redis = trace_db2, mq = mq trace_w1\<rparr>)"

text \<open>
  A run with two requests for \<^verbatim>\<open>go\<close>. Both read the cache at time 0, when it is empty
  (\<open>stale_read\<close>). The first goes on at once (\<open>trace_w1\<close>); the job for its message
  succeeds at one second and writes the payload (\<open>stale_db2\<close>). The second request goes
  on only at six seconds, with what it read at time 0 (\<open>stale_w3\<close>).
\<close>

definition stale_read :: "string option \<times> string \<times> string option" where
  "stale_read = GetDataByKey demo_ext None (redis empty_world) 0 (GetFuzzyCacheKey demo_ext ''go'')"

definition stale_db2 :: redis where
  "stale_db2 = fst (startFuzzyQueryConsumer_job demo_ext search_hit 1000 ''12:00:01''
                      ''keyword=go'' (redis trace_w1))"

definition stale_w3 :: world where
  "stale_w3 = snd (SubmitFuzzyQuery_after_read demo_ext (demo_env 6000 ''r2'') ''go'' stale_read
                     \<lparr>redis = stale_db2, mq = mq trace_w1\<rparr>)"

text \<open>
  A run in which the publish fails: a submission of \<^verbatim>\<open>go\<close> at time 0 whose publish returns
  an error (\<open>fail_w1\<close>), and retries of the same submission, with the queue working again,
  made on the store it left.
\<close>

definition fail_env :: submit_env where
  "fail_env = (demo_env 0 ''r1'')\<lparr>s_publish_fault := Some ''channel closed''\<rparr>"

definition fail_w1 :: world where
  "fail_w1 = snd (SubmitFuzzyQuery demo_ext fail_env ''go'' empty_world)"

definition retry :: "nat \<Rightarrow> string response \<times> world" where
  "retry t = SubmitFuzzyQuery demo_ext (demo_env t ''r2'') ''go'' fail_w1"

text \<open>
  A second instance, which tells the values a search returns from the values
  \<^verbatim>\<open>json.Unmarshal\<close> builds. \<open>EmptyDocs\<close> is the empty \<^verbatim>\<open>[]bson.M\<close> of a search that matches
  nothing; its JSON text is \<^verbatim>\<open>[]\<close>. \<open>NaNDocs\<close> is a result list with a document that holds
  a double that is not a number, for which \<^verbatim>\<open>json.Marshal\<close> returns an error, so that the
  text the consumer stores is empty. \<open>Decoded s\<close> is the value \<^verbatim>\<open>json.Unmarshal\<close> builds in
  an \<^verbatim>\<open>interface{}\<close> from the text \<open>s\<close> (a \<^verbatim>\<open>[]interface{}\<close>, a \<^verbatim>\<open>map[string]interface{}\<close>, a
  \<^verbatim>\<open>float64\<close>, a string or a bool): never a \<^verbatim>\<open>[]bson.M\<close>.
\<close>

datatype gval = EmptyDocs | NaNDocs | Decoded string

definition typed_ext :: "gval ext" where
  "typed_ext =
     \<lparr>generateKeywordHash = rev,
      marshal = (\<lambda>v. case v of None \<Rightarrow> ''null'' | Some EmptyDocs \<Rightarrow> ''[]''
                       | Some NaNDocs \<Rightarrow> [] | Some (Decoded s) \<Rightarrow> s),
      unmarshal = (\<lambda>s. if s = [] \<or> s = ''null'' then None else Some (Decoded s)),
      marshal_msg = (\<lambda>m. ''keyword='' @ hget m ''keyword''),
      unmarshal_msg = (\<lambda>b. if take 8 b = ''keyword='' then Some [(''keyword'', drop 8 b)] else None)\<rparr>"

definition search_empty :: "string \<Rightarrow> gval search" where
  "search_empty keyword = Found EmptyDocs"

definition search_nan :: "string \<Rightarrow> gval search" where
  "search_nan keyword = Found NaNDocs"

text \<open>A document with a title and a crawl time.\<close>

definition hot :: "string \<Rightarrow> int \<Rightarrow> bsonM" where
  "hot title t = [(''hotitem'', BDoc [(''title'', BString title), (''crawledat'', BDateTime t)])]"

lemmas demo_defs = demo_ext_def demo_env_def empty_world_def search_down_def search_hit_def
  typed_ext_def search_empty_def search_nan_def
lemmas key_defs = GetFuzzyCacheKey_def GetFuzzyLockKey_def FuzzyCachePrefix_def FuzzyLockPrefix_def
  ResultCachePrefix_def FuzzyQueueName_def FuzzyCacheExpire_def UserTypeVIP_def
lemmas store_defs = live_def hget_def set_fields_def HSet_def Expire_def SetNX_def HGetAll_def
  observe_def
lemmas handler_defs = GetDataByKey_def PublishPriorityMQ_def submit_ticket_def SubmitFuzzyQuery_def
  SubmitFuzzyQuery_after_read_def
  GetFuzzyQueryResult_def startFuzzyQueryConsumer_job_def

section \<open>Read-client selection and the replica refresh\<close>

text \<open>
  C7. With no replicas, \<open>selectReadClient\<close> returns the primary with a nil error and logs
  the degraded-mode warning. With replicas, it returns the replica at the index the
  random source drew (within the bound it was given), which is a member of the current
  replica list, with a nil error and no warning: each index below the length selects the
  replica at that position, and every replica of the list is selected by some index, so
  a uniform draw of the index is a uniform choice among the positions of the list.
\<close>

theorem selectReadClient_spec:
  "(slaveClients r = [] \<longrightarrow>
      selectReadClient draw r =
        (Returned (masterClient r, None),
         [LogWarn ''no slave clients available, use master client for read'']))
   \<and> (slaveClients r \<noteq> [] \<and> draw < length (slaveClients r) \<longrightarrow>
        selectReadClient draw r = (Returned (slaveClients r ! draw, None), [])
        \<and> slaveClients r ! draw \<in> set (slaveClients r))
   \<and> (\<forall>c \<in> set (slaveClients r).
        \<exists>i < length (slaveClients r). selectReadClient i r = (Returned (c, None), []))"
  by (auto simp: selectReadClient_def Let_def in_set_conv_nth)

theorem selectReadClient_spec_witness:
  "selectReadClient 1
     \<lparr>masterClient = \<lparr>handle = 0, addr = ''m''\<rparr>, slaveClients = []\<rparr>
   = (Returned (\<lparr>handle = 0, addr = ''m''\<rparr>, None),
      [LogWarn ''no slave clients available, use master client for read''])
   \<and> selectReadClient 1
       \<lparr>masterClient = \<lparr>handle = 0, addr = ''m''\<rparr>,
        slaveClients = [\<lparr>handle = 1, addr = ''a''\<rparr>, \<lparr>handle = 2, addr = ''b''\<rparr>]\<rparr>
     = (Returned (\<lparr>handle = 2, addr = ''b''\<rparr>, None), [])"
  using selectReadClient_spec
          [of "\<lparr>masterClient = \<lparr>handle = 0, addr = ''m''\<rparr>, slaveClients = []\<rparr>" 1]
        selectReadClient_spec
          [of "\<lparr>masterClient = \<lparr>handle = 0, addr = ''m''\<rparr>,
               slaveClients = [\<lparr>handle = 1, addr = ''a''\<rparr>, \<lparr>handle = 2, addr = ''b''\<rparr>]\<rparr>"
              1]
  by simp


lemma probe_addrs_aux:
  "probe up n as = (cs, evs) \<Longrightarrow> map addr cs = filter (\<lambda>a. a \<in> up) (map rewrite_addr as)"
  by (induction as arbitrary: n cs evs) (auto simp: Let_def split: prod.splits if_splits)

lemma probe_addrs: "map addr (fst (probe up n as)) = filter (\<lambda>a. a \<in> up) (map rewrite_addr as)"
  using probe_addrs_aux [of up n as "fst (probe up n as)" "snd (probe up n as)"] by simp

text \<open>
  C3 (as the code has it). When \<^verbatim>\<open>getSlaveAddrs\<close> fails, the tick keeps the manager as it
  was, logs the two errors, and opens, closes and assigns nothing. When it succeeds, the
  replica list becomes the list of probed clients, which are those of the discovered
  addresses (after the rewrite) that answered, possibly none; the primary is kept; and
  the old clients are closed before the new list is assigned, both inside the lock.
\<close>

theorem refreshSlaveClients_swap:
  "refreshSlaveClients (Inl e) up n r =
     (r, [Lock, LogError (''get slave addresses failed: '' @ e),
          LogError (''refresh slave clients failed: '' @ e), Unlock])
   \<and> fst (refreshSlaveClients (Inr as) up n r) = r\<lparr>slaveClients := fst (probe up n as)\<rparr>
   \<and> map addr (fst (probe up n as)) = filter (\<lambda>a. a \<in> up) (map rewrite_addr as)
   \<and> snd (refreshSlaveClients (Inr as) up n r) =
       [Lock] @ snd (probe up n as) @ map Close (slaveClients r) @ [Assign (fst (probe up n as)), Unlock]"
  by (auto simp: refreshSlaveClients_def probe_addrs split: prod.splits)

theorem refreshSlaveClients_swap_witness:
  "refreshSlaveClients (Inr [''172.28.0.11:6379'', ''10.0.0.9:6379'']) {''localhost:6380''} 7
     \<lparr>masterClient = \<lparr>handle = 0, addr = ''m''\<rparr>,
      slaveClients = [\<lparr>handle = 1, addr = ''localhost:6381''\<rparr>]\<rparr>
   = (\<lparr>masterClient = \<lparr>handle = 0, addr = ''m''\<rparr>,
       slaveClients = [\<lparr>handle = 7, addr = ''localhost:6380''\<rparr>]\<rparr>,
      [Lock,
       NewClient \<lparr>handle = 7, addr = ''localhost:6380''\<rparr>,
       Ping \<lparr>handle = 7, addr = ''localhost:6380''\<rparr> True,
       NewClient \<lparr>handle = 8, addr = ''10.0.0.9:6379''\<rparr>,
       Ping \<lparr>handle = 8, addr = ''10.0.0.9:6379''\<rparr> False,
       Close \<lparr>handle = 8, addr = ''10.0.0.9:6379''\<rparr>,
       Close \<lparr>handle = 1, addr = ''localhost:6381''\<rparr>,
       Assign [\<lparr>handle = 7, addr = ''localhost:6380''\<rparr>], Unlock])
   \<and> refreshSlaveClients (Inl ''sentinel address list is empty'') {''localhost:6380''} 7
       \<lparr>masterClient = \<lparr>handle = 0, addr = ''m''\<rparr>,
        slaveClients = [\<lparr>handle = 1, addr = ''localhost:6381''\<rparr>]\<rparr>
     = (\<lparr>masterClient = \<lparr>handle = 0, addr = ''m''\<rparr>,
         slaveClients = [\<lparr>handle = 1, addr = ''localhost:6381''\<rparr>]\<rparr>,
        [Lock, LogError ''get slave addresses failed: sentinel address list is empty'',
         LogError ''refresh slave clients failed: sentinel address list is empty'', Unlock])"
  using refreshSlaveClients_swap
          [of "''sentinel address list is empty''" "{''localhost:6380''}" 7
              "\<lparr>masterClient = \<lparr>handle = 0, addr = ''m''\<rparr>,
                slaveClients = [\<lparr>handle = 1, addr = ''localhost:6381''\<rparr>]\<rparr>"
              "[''172.28.0.11:6379'', ''10.0.0.9:6379'']"]
  by (simp add: rewrite_addr_def Let_def prod_eq_iff)

text \<open>
  C3 as stated fails: with one replica in use and one address discovered that does not
  answer the ping, the tick replaces the replica list by the empty list, and it closes
  the old client before it assigns the new list.
\<close>

theorem refreshSlaveClients_counterexample:
  "refreshSlaveClients (Inr [''172.28.0.11:6379'']) {} 7
     \<lparr>masterClient = \<lparr>handle = 0, addr = ''m''\<rparr>,
      slaveClients = [\<lparr>handle = 1, addr = ''localhost:6380''\<rparr>]\<rparr>
   = (\<lparr>masterClient = \<lparr>handle = 0, addr = ''m''\<rparr>, slaveClients = []\<rparr>,
      [Lock, NewClient \<lparr>handle = 7, addr = ''localhost:6380''\<rparr>,
       Ping \<lparr>handle = 7, addr = ''localhost:6380''\<rparr> False,
       Close \<lparr>handle = 7, addr = ''localhost:6380''\<rparr>,
       Close \<lparr>handle = 1, addr = ''localhost:6380''\<rparr>, Assign [], Unlock])"
  by (simp add: refreshSlaveClients_def rewrite_addr_def Let_def)

section \<open>The consumer\<close>

text \<open>
  C10. A delivery whose body \<^verbatim>\<open>json.Unmarshal\<close> rejects is logged and acknowledged: the
  job sends one ack, no nack, writes nothing to the store and does not search.
\<close>

theorem consumer_malformed_acked:
  "unmarshal_msg x body = None \<Longrightarrow>
   startFuzzyQueryConsumer_job x search now stamp body db =
     (db, [WLogError ''parse fuzzy query message failed'', WAck])"
  by (simp add: startFuzzyQueryConsumer_job_def)

theorem consumer_malformed_acked_witness:
  "unmarshal_msg demo_ext ''{oops'' = None \<and>
   startFuzzyQueryConsumer_job demo_ext search_down 1000 ''t'' ''{oops'' Map.empty =
     (Map.empty, [WLogError ''parse fuzzy query message failed'', WAck])"
  using consumer_malformed_acked [of demo_ext "''{oops''" search_down 1000 "''t''" Map.empty]
  by (simp add: demo_ext_def)


text \<open>
  C2 at a failing search. The job decodes the message, the search returns an error, and
  the entry written is \<^verbatim>\<open>status = ready\<close> with the data \<^verbatim>\<open>null\<close>: no \<^verbatim>\<open>failed\<close> status and no
  \<^verbatim>\<open>error_msg\<close> field is written. The ack is the last thing the job does.
\<close>

theorem consumer_search_error_writes_ready:
  "HGetAll None
     (fst (startFuzzyQueryConsumer_job demo_ext search_down 1000 ''12:00:01'' ''keyword=go'' Map.empty))
     1000 (GetFuzzyCacheKey demo_ext ''go'')
   = ([(''status'', ''ready''), (''data'', ''null''), (''update_time'', ''12:00:01'')], None)
   \<and> snd (startFuzzyQueryConsumer_job demo_ext search_down 1000 ''12:00:01'' ''keyword=go'' Map.empty)
   = [WLogInfo ''start fuzzy query'', WSearch ''go'',
      WLogError ''fuzzy query database failed: server selection timeout'',
      WLogInfo ''fuzzy query succeeded'',
      WHSet ''fuzzy:cache:og''
        [(''status'', ''ready''), (''data'', ''null''), (''update_time'', ''12:00:01'')],
      WExpire ''fuzzy:cache:og'' 600000, WAck]"
  by (simp add: startFuzzyQueryConsumer_job_def demo_ext_def search_down_def hget_def
        GetFuzzyCacheKey_def FuzzyCachePrefix_def HSet_def Expire_def live_def set_fields_def
        HGetAll_def FuzzyCacheExpire_def Let_def)

section \<open>Facts about the store and the keys\<close>

lemma HSet_other: "k' \<noteq> k \<Longrightarrow> HSet db now k fvs k' = db k'"
  by (simp add: HSet_def split: option.splits rvalue.splits)

lemma Expire_other: "k' \<noteq> k \<Longrightarrow> Expire db now k ttl k' = db k'"
  by (simp add: Expire_def split: option.splits)

lemma SetNX_other: "k' \<noteq> k \<Longrightarrow> snd (SetNX db now k v ttl) k' = db k'"
  by (simp add: SetNX_def split: option.splits)

lemma live_cong: "db k = db' k \<Longrightarrow> live db t k = live db' t k"
  by (simp add: live_def)

lemma lock_neq_cache: "GetFuzzyLockKey x kw \<noteq> GetFuzzyCacheKey x kw'"
  by (simp add: GetFuzzyLockKey_def GetFuzzyCacheKey_def FuzzyLockPrefix_def FuzzyCachePrefix_def)

lemma lock_neq_req: "GetFuzzyLockKey x kw \<noteq> ResultCachePrefix @ r"
  by (simp add: GetFuzzyLockKey_def FuzzyLockPrefix_def ResultCachePrefix_def)

lemma cache_neq_req: "FuzzyCachePrefix @ h \<noteq> ResultCachePrefix @ r"
  by (simp add: FuzzyCachePrefix_def ResultCachePrefix_def)

lemma cache_neq_lock: "FuzzyCachePrefix @ h \<noteq> GetFuzzyLockKey x kw"
  by (simp add: GetFuzzyLockKey_def FuzzyLockPrefix_def FuzzyCachePrefix_def)

lemma submit_ticket_mq: "mq (snd (submit_ticket x env kw db q)) = q"
  by (simp add: submit_ticket_def Let_def)

lemma submit_ticket_other:
  "k \<noteq> ResultCachePrefix @ s_reqID env \<Longrightarrow> redis (snd (submit_ticket x env kw db q)) k = db k"
  by (simp add: submit_ticket_def Let_def HSet_other Expire_other)

lemma after_read_publish_cases:
  "mq (snd (SubmitFuzzyQuery_after_read x env kw rd w)) = mq w
   \<or> (mq (snd (SubmitFuzzyQuery_after_read x env kw rd w)) =
        mq w @ [(FuzzyQueueName, marshal_msg x [(''keyword'', kw)],
                 if s_user_type env = UserTypeVIP then 10 else 0)]
      \<and> s_setnx_fault env = None
      \<and> fst (SetNX (redis w) (s_now env) (GetFuzzyLockKey x kw) (s_lockVal env) (5 * 1000))
      \<and> fst (snd rd) \<noteq> ''loading''
      \<and> redis (snd (SubmitFuzzyQuery_after_read x env kw rd w)) (GetFuzzyLockKey x kw) =
          Some \<lparr>rval = RString (s_lockVal env), expire_at = Some (s_now env + 5 * 1000)\<rparr>)"
  by (auto simp: SubmitFuzzyQuery_after_read_def Let_def PublishPriorityMQ_def submit_ticket_mq
        submit_ticket_other lock_neq_req lock_neq_cache HSet_other Expire_other SetNX_def
      split: prod.splits option.splits if_splits)

lemma after_read_no_publish_locked:
  "live (redis w) (s_now env) (GetFuzzyLockKey x kw) \<noteq> None \<Longrightarrow>
   mq (snd (SubmitFuzzyQuery_after_read x env kw rd w)) = mq w"
  using after_read_publish_cases [of x env kw rd w]
  by (auto simp: SetNX_def split: option.splits)

lemma after_read_pair:
  assumes t: "s_now env' < s_now env + 5 * 1000"
  shows "length (mq (snd (SubmitFuzzyQuery_after_read x env' kw rd'
                            (snd (SubmitFuzzyQuery_after_read x env kw rd w)))))
           \<le> length (mq w) + 1"
proof -
  let ?w1 = "snd (SubmitFuzzyQuery_after_read x env kw rd w)"
  let ?w2 = "snd (SubmitFuzzyQuery_after_read x env' kw rd' ?w1)"
  show ?thesis
  proof (cases "mq ?w1 = mq w")
    case True
    with after_read_publish_cases [of x env' kw rd' ?w1] show ?thesis by auto
  next
    case False
    with after_read_publish_cases [of x env kw rd w]
    have one: "length (mq ?w1) = length (mq w) + 1"
      and lock: "redis ?w1 (GetFuzzyLockKey x kw) =
          Some \<lparr>rval = RString (s_lockVal env), expire_at = Some (s_now env + 5 * 1000)\<rparr>"
      by auto
    from lock t have "live (redis ?w1) (s_now env') (GetFuzzyLockKey x kw) \<noteq> None"
      by (simp add: live_def)
    then have "mq ?w2 = mq ?w1" by (rule after_read_no_publish_locked)
    with one show ?thesis by simp
  qed
qed

lemma submit_publish_cases:
  "mq (snd (SubmitFuzzyQuery x env kw w)) = mq w
   \<or> (mq (snd (SubmitFuzzyQuery x env kw w)) =
        mq w @ [(FuzzyQueueName, marshal_msg x [(''keyword'', kw)],
                 if s_user_type env = UserTypeVIP then 10 else 0)]
      \<and> s_setnx_fault env = None
      \<and> fst (SetNX (redis w) (s_now env) (GetFuzzyLockKey x kw) (s_lockVal env) (5 * 1000))
      \<and> fst (snd (GetDataByKey x (s_get_fault env) (redis w) (s_now env) (GetFuzzyCacheKey x kw))) \<noteq> ''loading''
      \<and> redis (snd (SubmitFuzzyQuery x env kw w)) (GetFuzzyLockKey x kw) =
          Some \<lparr>rval = RString (s_lockVal env), expire_at = Some (s_now env + 5 * 1000)\<rparr>)"
  using after_read_publish_cases
          [of x env kw "GetDataByKey x (s_get_fault env) (redis w) (s_now env) (GetFuzzyCacheKey x kw)" w]
  by (cases "kw = []") (simp_all add: SubmitFuzzyQuery_def)

lemma submit_no_publish_locked:
  "live (redis w) (s_now env) (GetFuzzyLockKey x kw) \<noteq> None \<Longrightarrow>
   mq (snd (SubmitFuzzyQuery x env kw w)) = mq w"
  using submit_publish_cases [of x env kw w]
  by (auto simp: SetNX_def split: option.splits)

section \<open>Submission\<close>

text \<open>
  C1. A submission publishes only if its \<^verbatim>\<open>SetNX\<close> on the lock key succeeded and the
  status it read is not \<^verbatim>\<open>loading\<close>, and then it publishes exactly one message; while the
  lock key of the keyword is held a submission publishes nothing; and of two submissions
  of one keyword, the second at most five seconds (the lock's TTL) after the first, at
  most one publishes, also when each acts on a read of the cache made earlier (both
  having read before either took the lock).
\<close>

theorem submit_dedup:
  "(mq (snd (SubmitFuzzyQuery x env kw w)) \<noteq> mq w \<longrightarrow>
      mq (snd (SubmitFuzzyQuery x env kw w)) =
        mq w @ [(FuzzyQueueName, marshal_msg x [(''keyword'', kw)],
                 if s_user_type env = UserTypeVIP then 10 else 0)]
      \<and> s_setnx_fault env = None
      \<and> fst (SetNX (redis w) (s_now env) (GetFuzzyLockKey x kw) (s_lockVal env) (5 * 1000))
      \<and> fst (snd (GetDataByKey x (s_get_fault env) (redis w) (s_now env) (GetFuzzyCacheKey x kw)))
            \<noteq> ''loading'')
   \<and> (live (redis w) (s_now env) (GetFuzzyLockKey x kw) \<noteq> None \<longrightarrow>
        mq (snd (SubmitFuzzyQuery x env kw w)) = mq w)
   \<and> (s_now env \<le> s_now env' \<and> s_now env' < s_now env + 5 * 1000 \<longrightarrow>
        length (mq (snd (SubmitFuzzyQuery x env' kw (snd (SubmitFuzzyQuery x env kw w)))))
          \<le> length (mq w) + 1
        \<and> length (mq (snd (SubmitFuzzyQuery_after_read x env' kw rd'
                             (snd (SubmitFuzzyQuery_after_read x env kw rd w)))))
          \<le> length (mq w) + 1)"
proof (intro conjI impI)
  let ?w1 = "snd (SubmitFuzzyQuery x env kw w)"
  assume t: "s_now env \<le> s_now env' \<and> s_now env' < s_now env + 5 * 1000"
  then have t': "s_now env' < s_now env + 5 * 1000" by simp
  show "length (mq (snd (SubmitFuzzyQuery_after_read x env' kw rd'
                           (snd (SubmitFuzzyQuery_after_read x env kw rd w)))))
          \<le> length (mq w) + 1"
    using t' by (rule after_read_pair)
  show "length (mq (snd (SubmitFuzzyQuery x env' kw ?w1))) \<le> length (mq w) + 1"
  proof (cases "kw = []")
    case True
    then show ?thesis by (simp add: SubmitFuzzyQuery_def)
  next
    case False
    then show ?thesis
      using after_read_pair [OF t', of x kw
          "GetDataByKey x (s_get_fault env') (redis ?w1) (s_now env') (GetFuzzyCacheKey x kw)"
          "GetDataByKey x (s_get_fault env) (redis w) (s_now env) (GetFuzzyCacheKey x kw)" w]
      by (simp add: SubmitFuzzyQuery_def)
  qed
qed (use submit_publish_cases [of x env kw w] submit_no_publish_locked [of w env x kw] in auto)

theorem submit_dedup_witness:
  "mq (snd (SubmitFuzzyQuery demo_ext (demo_env 0 ''r1'') ''go'' empty_world))
     = [(''fuzzy-query-queue'', ''keyword=go'', 0)]
   \<and> live (redis (snd (SubmitFuzzyQuery demo_ext (demo_env 0 ''r1'') ''go'' empty_world))) 3000
        (GetFuzzyLockKey demo_ext ''go'') \<noteq> None
   \<and> mq (snd (SubmitFuzzyQuery demo_ext (demo_env 3000 ''r2'') ''go''
              (snd (SubmitFuzzyQuery demo_ext (demo_env 0 ''r1'') ''go'' empty_world))))
     = [(''fuzzy-query-queue'', ''keyword=go'', 0)]"
  using submit_dedup [of demo_ext "demo_env 0 ''r1''" "''go''" empty_world "demo_env 3000 ''r2''"]
        submit_dedup [of demo_ext "demo_env 3000 ''r2''" "''go''"
                         "snd (SubmitFuzzyQuery demo_ext (demo_env 0 ''r1'') ''go'' empty_world)"
                         "demo_env 3000 ''r2''"]
  by (simp add: demo_defs key_defs store_defs handler_defs Let_def)


text \<open>
  When the lock is acquired and the publish fails, the caller gets the error (code 500
  with the publish error in the message), nothing is queued, and the lock key is left as
  \<^verbatim>\<open>SetNX\<close> wrote it: held until its five seconds have passed, and not longer.
\<close>

lemma submit_publish_failure:
  assumes "keyword \<noteq> []"
    and "GetDataByKey x (s_get_fault env) (redis w) (s_now env) (GetFuzzyCacheKey x keyword)
           = (None, status, None)"
    and "status \<noteq> ''loading''"
    and "s_setnx_fault env = None"
    and "fst (SetNX (redis w) (s_now env) (GetFuzzyLockKey x keyword) (s_lockVal env) (5 * 1000))"
    and "s_publish_fault env = Some e"
  shows "fst (SubmitFuzzyQuery x env keyword w) =
           BusinessError 500
             (''publish fuzzy query MQ message failed keyword:'' @ keyword @ '' error:'' @ e)
         \<and> mq (snd (SubmitFuzzyQuery x env keyword w)) = mq w
         \<and> redis (snd (SubmitFuzzyQuery x env keyword w)) (GetFuzzyLockKey x keyword) =
             Some \<lparr>rval = RString (s_lockVal env), expire_at = Some (s_now env + 5 * 1000)\<rparr>
         \<and> (\<forall>t. (t < s_now env + 5 * 1000) =
                  (live (redis (snd (SubmitFuzzyQuery x env keyword w))) t (GetFuzzyLockKey x keyword)
                     \<noteq> None))"
  using assms
  by (auto simp: SubmitFuzzyQuery_def SubmitFuzzyQuery_after_read_def Let_def PublishPriorityMQ_def
        lock_neq_cache HSet_other Expire_other SetNX_def live_def
      split: prod.splits option.splits if_splits)


lemma submit_publish_failure_example:
  "fst (SubmitFuzzyQuery demo_ext ((demo_env 0 ''r1'')\<lparr>s_publish_fault := Some ''channel closed''\<rparr>)
          ''go'' empty_world)
   = BusinessError 500 ''publish fuzzy query MQ message failed keyword:go error:channel closed''
   \<and> live (redis (snd (SubmitFuzzyQuery demo_ext
                      ((demo_env 0 ''r1'')\<lparr>s_publish_fault := Some ''channel closed''\<rparr>)
                      ''go'' empty_world))) 4999 (GetFuzzyLockKey demo_ext ''go'') \<noteq> None"
  using submit_publish_failure
          [of "''go''" demo_ext "(demo_env 0 ''r1'')\<lparr>s_publish_fault := Some ''channel closed''\<rparr>"
              empty_world "[]" "''channel closed''"]
  by (simp add: demo_defs key_defs store_defs handler_defs Let_def)

section \<open>Polling\<close>

text \<open>
  C4. For a poll with a request id: when no request-handle record is found, the answer
  is the error 404, which is not a progress answer. When one is found and the two reads
  meet no connection error: if no cache entry is found under its \<^verbatim>\<open>cache_key\<close> the answer is
  progress 50; if the entry is \<^verbatim>\<open>loading\<close>, progress 70; if \<^verbatim>\<open>ready\<close>, the deserialized data;
  if \<^verbatim>\<open>failed\<close>, the error 500 with the entry's \<^verbatim>\<open>error_msg\<close>.
\<close>

theorem poll_result_spec:
  assumes "reqID \<noteq> []"
  shows "(observe db now (ResultCachePrefix @ reqID) = None \<longrightarrow>
            GetFuzzyQueryResult x fault1 fault2 db now reqID =
              BusinessError 404 ''request does not exist or has expired'')
       \<and> (\<forall>h. observe db now (ResultCachePrefix @ reqID) = Some h \<and> fault1 = None \<and> fault2 = None \<longrightarrow>
            (observe db now (hget h ''cache_key'') = None \<longrightarrow>
               GetFuzzyQueryResult x fault1 fault2 db now reqID =
                 Response 1 ''query in progress, poll again in 1 second'' (Progress reqID 50))
          \<and> (\<forall>c. observe db now (hget h ''cache_key'') = Some c \<longrightarrow>
                (hget c ''status'' = ''loading'' \<longrightarrow>
                   GetFuzzyQueryResult x fault1 fault2 db now reqID =
                     Response 1 ''query in progress, poll again in 1 second'' (Progress reqID 70))
              \<and> (hget c ''status'' = ''ready'' \<longrightarrow>
                   GetFuzzyQueryResult x fault1 fault2 db now reqID =
                     Response 0 ''ok'' (Payload (unmarshal x (hget c ''data''))))
              \<and> (hget c ''status'' = ''failed'' \<longrightarrow>
                   GetFuzzyQueryResult x fault1 fault2 db now reqID =
                     BusinessError 500 (''query failed: '' @ hget c ''error_msg''))))"
  using assms
  by (auto simp: GetFuzzyQueryResult_def HGetAll_def observe_def Let_def
      split: option.splits rvalue.splits if_splits)

theorem poll_result_spec_witness:
  "GetFuzzyQueryResult demo_ext None None poll_db 1000 ''r0''
     = BusinessError 404 ''request does not exist or has expired''
   \<and> GetFuzzyQueryResult demo_ext None None poll_db 1000 ''r1''
     = Response 1 ''query in progress, poll again in 1 second'' (Progress ''r1'' 50)
   \<and> GetFuzzyQueryResult demo_ext None None poll_db 1000 ''r2''
     = Response 1 ''query in progress, poll again in 1 second'' (Progress ''r2'' 70)
   \<and> GetFuzzyQueryResult demo_ext None None poll_db 1000 ''r3''
     = Response 0 ''ok'' (Payload (Some ''[1,2]''))
   \<and> GetFuzzyQueryResult demo_ext None None poll_db 1000 ''r4''
     = BusinessError 500 ''query failed: boom''"
  using poll_result_spec [of "''r0''" poll_db 1000 demo_ext None None]
        poll_result_spec [of "''r1''" poll_db 1000 demo_ext None None]
        poll_result_spec [of "''r2''" poll_db 1000 demo_ext None None]
        poll_result_spec [of "''r3''" poll_db 1000 demo_ext None None]
        poll_result_spec [of "''r4''" poll_db 1000 demo_ext None None]
  by (simp add: poll_db_def demo_defs key_defs store_defs)

section \<open>Writing a result and reading it back\<close>

lemma set_fields_nonempty: "h \<noteq> [] \<or> fvs \<noteq> [] \<Longrightarrow> set_fields fvs h \<noteq> []"
proof (induction fvs arbitrary: h)
  case Nil
  then show ?case by (simp add: set_fields_def)
next
  case (Cons fv fvs)
  have "AList.update (fst fv) (snd fv) h \<noteq> []" by (cases h) auto
  with Cons.IH [of "AList.update (fst fv) (snd fv) h"] show ?case
    by (simp add: set_fields_def)
qed


lemma hget_set_fields:
  "hget (set_fields fvs h) f = (case map_of (rev fvs) f of Some v \<Rightarrow> v | None \<Rightarrow> hget h f)"
proof (induction fvs arbitrary: h)
  case Nil
  then show ?case by (simp add: set_fields_def)
next
  case (Cons fv fvs)
  have "hget (set_fields (fv # fvs) h) f = hget (set_fields fvs (AList.update (fst fv) (snd fv) h)) f"
    by (simp add: set_fields_def)
  also have "\<dots> = (case map_of (rev fvs) f of Some v \<Rightarrow> v
                     | None \<Rightarrow> hget (AList.update (fst fv) (snd fv) h) f)"
    by (rule Cons.IH)
  finally show ?case
    by (cases fv) (auto simp: hget_def update_conv' map_add_def split: option.splits)
qed

lemma HGetAll_HSet_Expire:
  assumes "now \<le> t" "t < now + ttl"
    and "\<forall>e s. live db now k = Some e \<longrightarrow> rval e \<noteq> RString s"
  shows "HGetAll None (Expire (HSet db now k fvs) now k ttl) t k =
           (set_fields fvs (case live db now k of None \<Rightarrow> []
                            | Some e \<Rightarrow> (case rval e of RHash h \<Rightarrow> h | RString _ \<Rightarrow> [])), None)"
  using assms
  by (auto simp: HGetAll_def Expire_def HSet_def live_def split: option.splits rvalue.splits)

text \<open>
  C9 (as the code has it). The job that serializes the payload \<open>P\<close> writes, under the cache
  key, the status \<^verbatim>\<open>ready\<close> and as data the text \<^verbatim>\<open>json.Marshal\<close> gave for \<open>P\<close> (the empty text
  when it failed). A read of that key through \<open>GetDataByKey\<close> before the ten minutes of
  the entry have passed finds exactly that text and returns what \<^verbatim>\<open>json.Unmarshal\<close> decodes
  from it, with the empty status and no error: the cache hands the serialized text back
  unchanged, and the value read is the one \<^verbatim>\<open>encoding/json\<close> decodes, whether or not that
  is \<open>P\<close>. (The key must not hold a plain string.)
\<close>

theorem cache_read_back:
  assumes "unmarshal_msg x body = Some m"
    and "search (hget m ''keyword'') = (case P of Some v \<Rightarrow> Found v | None \<Rightarrow> SearchError e)"
    and "now \<le> t" and "t < now + FuzzyCacheExpire"
    and "\<forall>e s. live db now (GetFuzzyCacheKey x (hget m ''keyword'')) = Some e \<longrightarrow> rval e \<noteq> RString s"
  shows "hget (fst (HGetAll None (fst (startFuzzyQueryConsumer_job x search now stamp body db)) t
                      (GetFuzzyCacheKey x (hget m ''keyword'')))) ''status'' = ''ready''
       \<and> hget (fst (HGetAll None (fst (startFuzzyQueryConsumer_job x search now stamp body db)) t
                      (GetFuzzyCacheKey x (hget m ''keyword'')))) ''data'' = marshal x P
       \<and> GetDataByKey x None (fst (startFuzzyQueryConsumer_job x search now stamp body db)) t
           (GetFuzzyCacheKey x (hget m ''keyword'')) = (unmarshal x (marshal x P), [], None)"
proof -
  let ?ck = "GetFuzzyCacheKey x (hget m ''keyword'')"
  let ?fields = "[(''status'', ''ready''), (''data'', marshal x P), (''update_time'', stamp)]"
  have job: "fst (startFuzzyQueryConsumer_job x search now stamp body db) =
               Expire (HSet db now ?ck ?fields) now ?ck FuzzyCacheExpire"
    using assms(1,2) by (cases P) (simp_all add: startFuzzyQueryConsumer_job_def Let_def)
  obtain h where rd: "HGetAll None (Expire (HSet db now ?ck ?fields) now ?ck FuzzyCacheExpire) t ?ck
                        = (set_fields ?fields h, None)"
    using HGetAll_HSet_Expire [OF assms(3,4,5)] by blast
  have ne: "set_fields ?fields h \<noteq> []" by (rule set_fields_nonempty) simp
  have st: "hget (set_fields ?fields h) ''status'' = ''ready''"
    and dt: "hget (set_fields ?fields h) ''data'' = marshal x P"
    by (simp_all add: hget_set_fields)
  show ?thesis
    using ne st dt by (simp add: GetDataByKey_def job rd)
qed

theorem cache_read_back_witness:
  "GetDataByKey demo_ext None
     (fst (startFuzzyQueryConsumer_job demo_ext search_hit 1000 ''12:00:01'' ''keyword=go'' Map.empty))
     2000 (GetFuzzyCacheKey demo_ext ''go'') = (Some ''[1,2]'', [], None)"
  using cache_read_back
          [where x = demo_ext and body = "''keyword=go''" and m = "[(''keyword'', ''go'')]"
             and search = search_hit and P = "Some ''[1,2]''" and now = 1000 and t = 2000
             and db = Map.empty and stamp = "''12:00:01''"]
  by (simp add: demo_defs key_defs store_defs)

text \<open>
  C9 as stated fails. A search that matches nothing returns an empty \<^verbatim>\<open>[]bson.M\<close>; the job
  stores the text \<^verbatim>\<open>[]\<close>, and the read one second later returns the value \<^verbatim>\<open>json.Unmarshal\<close>
  builds from it, an empty \<^verbatim>\<open>[]interface{}\<close>, which is not the value written. A result
  that \<^verbatim>\<open>json.Marshal\<close> rejects is stored as the empty text, and the read returns \<^verbatim>\<open>nil\<close>.
\<close>

theorem cache_read_back_counterexample:
  "search_empty ''go'' = Found EmptyDocs
   \<and> GetDataByKey typed_ext None
       (fst (startFuzzyQueryConsumer_job typed_ext search_empty 1000 ''12:00:01'' ''keyword=go''
               Map.empty))
       2000 (GetFuzzyCacheKey typed_ext ''go'') = (Some (Decoded ''[]''), [], None)
   \<and> Decoded ''[]'' \<noteq> EmptyDocs
   \<and> search_nan ''go'' = Found NaNDocs
   \<and> GetDataByKey typed_ext None
       (fst (startFuzzyQueryConsumer_job typed_ext search_nan 1000 ''12:00:01'' ''keyword=go''
               Map.empty))
       2000 (GetFuzzyCacheKey typed_ext ''go'') = (None, [], None)"
  by (simp add: demo_defs key_defs store_defs handler_defs Let_def)

section \<open>The status of a cache entry over time\<close>

lemma observe_cong: "db k = db' k \<Longrightarrow> observe db t k = observe db' t k"
  by (simp add: observe_def live_def)

lemma HSet_cong: "db k = db' k \<Longrightarrow> HSet db now k fvs k = HSet db' now k fvs k"
proof -
  assume e: "db k = db' k"
  then have l: "live db now k = live db' now k" by (rule live_cong)
  show ?thesis
    unfolding HSet_def l using e by (simp split: option.splits rvalue.splits)
qed

lemma Expire_cong: "db k = db' k \<Longrightarrow> Expire db now k ttl k = Expire db' now k ttl k"
proof -
  assume e: "db k = db' k"
  then have l: "live db now k = live db' now k" by (rule live_cong)
  show ?thesis
    unfolding Expire_def l using e by (simp split: option.splits)
qed

lemma HSet_Expire_cong:
  "db k = db' k \<Longrightarrow> Expire (HSet db now k fvs) now k ttl k = Expire (HSet db' now k fvs) now k ttl k"
  by (intro Expire_cong HSet_cong)

lemma observe_HSet_Expire:
  "0 < ttl \<Longrightarrow> fvs \<noteq> [] \<Longrightarrow>
   observe (Expire (HSet db now k fvs) now k ttl) now k =
     (case live db now k of
        None \<Rightarrow> Some (set_fields fvs [])
      | Some e \<Rightarrow> (case rval e of RHash h \<Rightarrow> Some (set_fields fvs h) | RString _ \<Rightarrow> None))"
  using set_fields_nonempty [of _ fvs]
  by (auto simp: observe_def Expire_def HSet_def live_def split: option.splits rvalue.splits)

lemma job_store_cases:
  "fst (startFuzzyQueryConsumer_job x search now stamp body db) = db
   \<or> (\<exists>k d. fst (startFuzzyQueryConsumer_job x search now stamp body db) =
          Expire (HSet db now k [(''status'', ''ready''), (''data'', d), (''update_time'', stamp)])
            now k FuzzyCacheExpire)"
  by (auto simp: startFuzzyQueryConsumer_job_def Let_def split: option.splits search.splits)

lemma status_rank_le2: "status_rank entry \<le> 2"
  by (simp add: status_rank_def split: option.splits)

text \<open>The consumer's job never lowers the rank of the status found under a key.\<close>

lemma job_monotone:
  "status_rank (observe db now ck)
     \<le> status_rank (observe (fst (startFuzzyQueryConsumer_job x search now stamp body db)) now ck)"
proof -
  from job_store_cases [of x search now stamp body db]
  consider "fst (startFuzzyQueryConsumer_job x search now stamp body db) = db"
    | k d where "fst (startFuzzyQueryConsumer_job x search now stamp body db) =
          Expire (HSet db now k [(''status'', ''ready''), (''data'', d), (''update_time'', stamp)])
            now k FuzzyCacheExpire"
    by blast
  then show ?thesis
  proof cases
    case 1
    then show ?thesis by simp
  next
    case 2
    let ?fs = "[(''status'', ''ready''), (''data'', d), (''update_time'', stamp)]"
    show ?thesis
    proof (cases "ck = k")
      case False
      then have "observe (Expire (HSet db now k ?fs) now k FuzzyCacheExpire) now ck = observe db now ck"
        by (intro observe_cong) (simp add: HSet_other Expire_other)
      with 2 show ?thesis by simp
    next
      case True
      have o: "observe (Expire (HSet db now k ?fs) now k FuzzyCacheExpire) now k =
        (case live db now k of
           None \<Rightarrow> Some (set_fields ?fs [])
         | Some e \<Rightarrow> (case rval e of RHash h \<Rightarrow> Some (set_fields ?fs h) | RString _ \<Rightarrow> None))"
        by (rule observe_HSet_Expire) (simp_all add: FuzzyCacheExpire_def)
      have r: "\<And>h. status_rank (Some (set_fields ?fs h)) = 2"
        by (simp add: status_rank_def hget_set_fields)
      show ?thesis
        unfolding 2 True o using r status_rank_le2 [of "observe db now k"]
        by (auto simp: observe_def split: option.splits rvalue.splits)
    qed
  qed
qed

lemma cachekey_neq_req: "GetFuzzyCacheKey x kw \<noteq> ResultCachePrefix @ r"
  by (simp add: GetFuzzyCacheKey_def cache_neq_req)

lemma submit_store_cases:
  "redis (snd (SubmitFuzzyQuery x env kw w)) (FuzzyCachePrefix @ k) = redis w (FuzzyCachePrefix @ k)
   \<or> (FuzzyCachePrefix @ k = GetFuzzyCacheKey x kw
      \<and> fst (GetDataByKey x (s_get_fault env) (redis w) (s_now env) (GetFuzzyCacheKey x kw)) = None
      \<and> fst (snd (GetDataByKey x (s_get_fault env) (redis w) (s_now env) (GetFuzzyCacheKey x kw)))
           \<noteq> ''loading''
      \<and> snd (snd (GetDataByKey x (s_get_fault env) (redis w) (s_now env) (GetFuzzyCacheKey x kw)))
           = None
      \<and> redis (snd (SubmitFuzzyQuery x env kw w)) (FuzzyCachePrefix @ k) =
          Expire (HSet (redis w) (s_now env) (FuzzyCachePrefix @ k)
                    [(''status'', ''loading''), (''keyword'', kw), (''create_time'', s_stamp env)])
            (s_now env) (FuzzyCachePrefix @ k) FuzzyCacheExpire (FuzzyCachePrefix @ k))"
proof (cases "FuzzyCachePrefix @ k = GetFuzzyCacheKey x kw")
  case False
  then show ?thesis
    by (auto simp: SubmitFuzzyQuery_def SubmitFuzzyQuery_after_read_def Let_def PublishPriorityMQ_def submit_ticket_other
          cache_neq_req cache_neq_lock HSet_other Expire_other SetNX_other case_prod_beta
        split: option.splits if_splits)
next
  case True
  have c: "\<And>n. (snd (SetNX (redis w) (s_now env) (GetFuzzyLockKey x kw) (s_lockVal env) n))
              (GetFuzzyCacheKey x kw) = redis w (GetFuzzyCacheKey x kw)"
    using lock_neq_cache [of x kw kw] by (simp add: SetNX_other)
  have hc: "\<And>fvs ttl n.
      Expire (HSet (snd (SetNX (redis w) (s_now env) (GetFuzzyLockKey x kw) (s_lockVal env) n))
                (s_now env) (GetFuzzyCacheKey x kw) fvs)
        (s_now env) (GetFuzzyCacheKey x kw) ttl (GetFuzzyCacheKey x kw)
      = Expire (HSet (redis w) (s_now env) (GetFuzzyCacheKey x kw) fvs)
          (s_now env) (GetFuzzyCacheKey x kw) ttl (GetFuzzyCacheKey x kw)"
    by (rule HSet_Expire_cong) (rule c)
  show ?thesis
    unfolding True
    by (auto simp: SubmitFuzzyQuery_def SubmitFuzzyQuery_after_read_def Let_def PublishPriorityMQ_def submit_ticket_other
          cachekey_neq_req c hc case_prod_beta
        split: option.splits if_splits)
qed


text \<open>
  A submission that runs alone, its read of the cache and its writes on one and the same
  store, does not lower the rank of the status found under a cache key, unless the entry
  is \<^verbatim>\<open>failed\<close> or is \<^verbatim>\<open>ready\<close> with data that deserializes to \<^verbatim>\<open>nil\<close>. The runs below show
  that this does not extend to an entry that is ready with the data \<^verbatim>\<open>null\<close>, nor to a
  submission that acts on an earlier read.
\<close>

lemma submit_monotone:
  assumes ok: "\<forall>h. observe (redis w) (s_now env) (FuzzyCachePrefix @ k) = Some h \<longrightarrow>
                 hget h ''status'' \<noteq> ''failed''
                 \<and> (hget h ''status'' = ''ready'' \<longrightarrow> unmarshal x (hget h ''data'') \<noteq> None)"
  shows "status_rank (observe (redis w) (s_now env) (FuzzyCachePrefix @ k))
           \<le> status_rank (observe (redis (snd (SubmitFuzzyQuery x env kw w))) (s_now env)
                            (FuzzyCachePrefix @ k))"
proof -
  let ?ck = "FuzzyCachePrefix @ k"
  let ?fs = "[(''status'', ''loading''), (''keyword'', kw), (''create_time'', s_stamp env)]"
  let ?w' = "snd (SubmitFuzzyQuery x env kw w)"
  from submit_store_cases [of x env kw w k]
  consider "redis ?w' ?ck = redis w ?ck"
    | "?ck = GetFuzzyCacheKey x kw"
      "fst (GetDataByKey x (s_get_fault env) (redis w) (s_now env) ?ck) = None"
      "fst (snd (GetDataByKey x (s_get_fault env) (redis w) (s_now env) ?ck)) \<noteq> ''loading''"
      "snd (snd (GetDataByKey x (s_get_fault env) (redis w) (s_now env) ?ck)) = None"
      "redis ?w' ?ck = Expire (HSet (redis w) (s_now env) ?ck ?fs) (s_now env) ?ck FuzzyCacheExpire ?ck"
    by auto
  then show ?thesis
  proof cases
    case 1
    then have "observe (redis ?w') (s_now env) ?ck = observe (redis w) (s_now env) ?ck"
      by (rule observe_cong)
    then show ?thesis by simp
  next
    case 2
    have "observe (redis ?w') (s_now env) ?ck =
            observe (Expire (HSet (redis w) (s_now env) ?ck ?fs) (s_now env) ?ck FuzzyCacheExpire)
              (s_now env) ?ck"
      using 2(5) by (rule observe_cong)
    also have "\<dots> = (case live (redis w) (s_now env) ?ck of
           None \<Rightarrow> Some (set_fields ?fs [])
         | Some e \<Rightarrow> (case rval e of RHash h \<Rightarrow> Some (set_fields ?fs h) | RString _ \<Rightarrow> None))"
      by (rule observe_HSet_Expire) (simp_all add: FuzzyCacheExpire_def)
    finally have o: "observe (redis ?w') (s_now env) ?ck = (case live (redis w) (s_now env) ?ck of
           None \<Rightarrow> Some (set_fields ?fs [])
         | Some e \<Rightarrow> (case rval e of RHash h \<Rightarrow> Some (set_fields ?fs h) | RString _ \<Rightarrow> None))" .
    have r: "\<And>h. status_rank (Some (set_fields ?fs h)) = 1"
      by (simp add: status_rank_def hget_set_fields)
    have before: "status_rank (observe (redis w) (s_now env) ?ck) \<le> 1"
      using ok 2(2,3,4)
      by (auto simp: GetDataByKey_def HGetAll_def observe_def status_rank_def
          split: option.splits rvalue.splits if_splits)
    show ?thesis
      unfolding o using r before
      by (auto simp: observe_def split: option.splits rvalue.splits)
  qed
qed

text \<open>
  C5 at two runs. In the first, from the empty store, the status of the entry of \<^verbatim>\<open>go\<close>
  goes absent, loading, ready (written at one second by the job whose search failed, with
  the data \<^verbatim>\<open>null\<close>); the entry is still there at six seconds, and the submission made
  then, which finds no data in it, sets it back to loading, long before its ten minutes
  have passed. In the second, the job succeeds and the entry is ready with its payload;
  the request that read the cache at time 0 and takes the lock at six seconds sets it
  back to loading and queues a second message.
\<close>

theorem submit_resets_ready_entry:
  "status_rank (observe (redis empty_world) 0 (GetFuzzyCacheKey demo_ext ''go'')) = 0
   \<and> status_rank (observe (redis trace_w1) 0 (GetFuzzyCacheKey demo_ext ''go'')) = 1
   \<and> status_rank (observe trace_db2 1000 (GetFuzzyCacheKey demo_ext ''go'')) = 2
   \<and> observe trace_db2 6000 (GetFuzzyCacheKey demo_ext ''go'')
     = Some [(''status'', ''ready''), (''keyword'', ''go''), (''create_time'', ''12:00:00''),
             (''data'', ''null''), (''update_time'', ''12:00:01'')]
   \<and> status_rank (observe trace_db2 6000 (GetFuzzyCacheKey demo_ext ''go'')) = 2
   \<and> status_rank (observe (redis trace_w3) 6000 (GetFuzzyCacheKey demo_ext ''go'')) = 1
   \<and> stale_read = (None, [], None)
   \<and> observe stale_db2 6000 (GetFuzzyCacheKey demo_ext ''go'')
     = Some [(''status'', ''ready''), (''keyword'', ''go''), (''create_time'', ''12:00:00''),
             (''data'', ''[1,2]''), (''update_time'', ''12:00:01'')]
   \<and> status_rank (observe stale_db2 6000 (GetFuzzyCacheKey demo_ext ''go'')) = 2
   \<and> observe (redis stale_w3) 6000 (GetFuzzyCacheKey demo_ext ''go'')
     = Some [(''status'', ''loading''), (''keyword'', ''go''), (''create_time'', ''12:00:00''),
             (''data'', ''[1,2]''), (''update_time'', ''12:00:01'')]
   \<and> status_rank (observe (redis stale_w3) 6000 (GetFuzzyCacheKey demo_ext ''go'')) = 1
   \<and> mq stale_w3 = [(''fuzzy-query-queue'', ''keyword=go'', 0), (''fuzzy-query-queue'', ''keyword=go'', 0)]"
  by (simp add: trace_w3_def trace_db2_def trace_w1_def stale_w3_def stale_db2_def stale_read_def
        demo_defs key_defs store_defs handler_defs status_rank_def Let_def)

section \<open>A failed publish and the retries\<close>

lemma observe_HSet_Expire_later:
  "fvs \<noteq> [] \<Longrightarrow> now \<le> t \<Longrightarrow> t < now + ttl \<Longrightarrow>
   observe (Expire (HSet db now k fvs) now k ttl) t k =
     (case live db now k of
        None \<Rightarrow> Some (set_fields fvs [])
      | Some e \<Rightarrow> (case rval e of RHash h \<Rightarrow> Some (set_fields fvs h) | RString _ \<Rightarrow> None))"
  using set_fields_nonempty [of _ fvs]
  by (auto simp: observe_def Expire_def HSet_def live_def split: option.splits rvalue.splits)

lemma submit_claims_entry:
  assumes "kw \<noteq> []"
    and "GetDataByKey x (s_get_fault env) (redis w) (s_now env) (GetFuzzyCacheKey x kw)
           = (None, status, None)"
    and "status \<noteq> ''loading''"
    and "s_setnx_fault env = None"
    and "live (redis w) (s_now env) (GetFuzzyLockKey x kw) = None"
  shows "redis (snd (SubmitFuzzyQuery x env kw w)) (GetFuzzyCacheKey x kw) =
          Expire (HSet (redis w) (s_now env) (GetFuzzyCacheKey x kw)
                    [(''status'', ''loading''), (''keyword'', kw), (''create_time'', s_stamp env)])
            (s_now env) (GetFuzzyCacheKey x kw) FuzzyCacheExpire (GetFuzzyCacheKey x kw)"
proof -
  have c: "\<And>n. (snd (SetNX (redis w) (s_now env) (GetFuzzyLockKey x kw) (s_lockVal env) n))
              (GetFuzzyCacheKey x kw) = redis w (GetFuzzyCacheKey x kw)"
    using lock_neq_cache [of x kw kw] by (simp add: SetNX_other)
  have hc: "\<And>fvs ttl n.
      Expire (HSet (snd (SetNX (redis w) (s_now env) (GetFuzzyLockKey x kw) (s_lockVal env) n))
                (s_now env) (GetFuzzyCacheKey x kw) fvs)
        (s_now env) (GetFuzzyCacheKey x kw) ttl (GetFuzzyCacheKey x kw)
      = Expire (HSet (redis w) (s_now env) (GetFuzzyCacheKey x kw) fvs)
          (s_now env) (GetFuzzyCacheKey x kw) ttl (GetFuzzyCacheKey x kw)"
    by (rule HSet_Expire_cong) (rule c)
  have s: "\<And>n. fst (SetNX (redis w) (s_now env) (GetFuzzyLockKey x kw) (s_lockVal env) n)"
    using assms(5) by (simp add: SetNX_def)
  show ?thesis
    using assms(1-4)
    by (auto simp: SubmitFuzzyQuery_def SubmitFuzzyQuery_after_read_def Let_def
          PublishPriorityMQ_def submit_ticket_other cachekey_neq_req s hc case_prod_beta
        split: option.splits)
qed


text \<open>
  A submission that reads no data and a status other than \<^verbatim>\<open>loading\<close>, and acquires the
  lock, leaves the entry with the status \<^verbatim>\<open>loading\<close> for the ten minutes that follow,
  whether its publish succeeds or fails.
\<close>

lemma publish_failure_leaves_loading:
  assumes "keyword \<noteq> []"
    and "GetDataByKey x (s_get_fault env) (redis w) (s_now env) (GetFuzzyCacheKey x keyword)
           = (None, status, None)"
    and "status \<noteq> ''loading''"
    and "s_setnx_fault env = None"
    and "live (redis w) (s_now env) (GetFuzzyLockKey x keyword) = None"
    and "\<forall>e s. live (redis w) (s_now env) (GetFuzzyCacheKey x keyword) = Some e \<longrightarrow> rval e \<noteq> RString s"
    and "s_now env \<le> t" and "t < s_now env + FuzzyCacheExpire"
  shows "\<exists>h. observe (redis (snd (SubmitFuzzyQuery x env keyword w))) t (GetFuzzyCacheKey x keyword)
               = Some h \<and> hget h ''status'' = ''loading''"
proof -
  let ?ck = "GetFuzzyCacheKey x keyword"
  let ?fs = "[(''status'', ''loading''), (''keyword'', keyword), (''create_time'', s_stamp env)]"
  have "redis (snd (SubmitFuzzyQuery x env keyword w)) ?ck =
          Expire (HSet (redis w) (s_now env) ?ck ?fs) (s_now env) ?ck FuzzyCacheExpire ?ck"
    using assms(1-5) by (rule submit_claims_entry)
  then have "observe (redis (snd (SubmitFuzzyQuery x env keyword w))) t ?ck =
          observe (Expire (HSet (redis w) (s_now env) ?ck ?fs) (s_now env) ?ck FuzzyCacheExpire) t ?ck"
    by (rule observe_cong)
  also have "\<dots> = (case live (redis w) (s_now env) ?ck of
           None \<Rightarrow> Some (set_fields ?fs [])
         | Some e \<Rightarrow> (case rval e of RHash h \<Rightarrow> Some (set_fields ?fs h) | RString _ \<Rightarrow> None))"
    using assms(7,8) by (intro observe_HSet_Expire_later) simp_all
  finally show ?thesis
    using assms(6) by (auto simp: hget_set_fields split: option.splits rvalue.splits)
qed

text \<open>A submission that finds the entry of its keyword \<^verbatim>\<open>loading\<close> publishes nothing.\<close>

lemma loading_blocks_publish:
  assumes "observe (redis w) (s_now env) (GetFuzzyCacheKey x keyword) = Some h"
    and "hget h ''status'' = ''loading''"
  shows "mq (snd (SubmitFuzzyQuery x env keyword w)) = mq w"
proof (cases "s_get_fault env")
  case None
  with assms have
    "fst (snd (GetDataByKey x (s_get_fault env) (redis w) (s_now env) (GetFuzzyCacheKey x keyword)))
       = ''loading''"
    by (auto simp: GetDataByKey_def HGetAll_def observe_def split: option.splits rvalue.splits if_splits)
  with submit_publish_cases [of x env keyword w] show ?thesis by blast
next
  case (Some e)
  then show ?thesis
    by (simp add: SubmitFuzzyQuery_def SubmitFuzzyQuery_after_read_def GetDataByKey_def HGetAll_def
          Let_def)
qed


text \<open>
  Hence after a submission that acquired the lock, whatever became of its publish, no
  submission of the keyword made within the ten minutes that follow publishes anything
  (on the store it left).
\<close>

lemma claimed_entry_blocks_retries:
  assumes "keyword \<noteq> []"
    and "GetDataByKey x (s_get_fault env) (redis w) (s_now env) (GetFuzzyCacheKey x keyword)
           = (None, status, None)"
    and "status \<noteq> ''loading''"
    and "s_setnx_fault env = None"
    and "live (redis w) (s_now env) (GetFuzzyLockKey x keyword) = None"
    and "\<forall>e s. live (redis w) (s_now env) (GetFuzzyCacheKey x keyword) = Some e \<longrightarrow> rval e \<noteq> RString s"
    and "s_now env \<le> s_now env'" and "s_now env' < s_now env + FuzzyCacheExpire"
  shows "mq (snd (SubmitFuzzyQuery x env' keyword (snd (SubmitFuzzyQuery x env keyword w))))
           = mq (snd (SubmitFuzzyQuery x env keyword w))"
  using publish_failure_leaves_loading [OF assms] loading_blocks_publish by blast

text \<open>
  C6 at a retry. The submission of \<^verbatim>\<open>go\<close> whose publish fails answers the error 500 and
  queues nothing, but it has already written \<^verbatim>\<open>status = loading\<close> with the entry's ten
  minutes, and leaves it. The lock is gone after five seconds; the same submission made
  again at six seconds, and again one millisecond before the ten minutes are over, with
  the queue working, reads \<^verbatim>\<open>loading\<close>, publishes nothing and answers a ticket, though no
  job was ever queued. Only at ten minutes does a retry publish.
\<close>

theorem publish_failure_blocks_retry:
  "fst (SubmitFuzzyQuery demo_ext fail_env ''go'' empty_world)
     = BusinessError 500 ''publish fuzzy query MQ message failed keyword:go error:channel closed''
   \<and> mq fail_w1 = []
   \<and> observe (redis fail_w1) 0 (GetFuzzyCacheKey demo_ext ''go'')
     = Some [(''status'', ''loading''), (''keyword'', ''go''), (''create_time'', ''12:00:00'')]
   \<and> live (redis fail_w1) 6000 (GetFuzzyLockKey demo_ext ''go'') = None
   \<and> fst (retry 6000)
     = Response 1 ''query in progress, poll for the result''
         (PollTicket ''r2'' ''/api/public/query/fuzzy/result?req_id=r2'')
   \<and> mq (snd (retry 6000)) = []
   \<and> mq (snd (retry 599999)) = []
   \<and> mq (snd (retry 600000)) = [(''fuzzy-query-queue'', ''keyword=go'', 0)]"
  by (simp add: retry_def fail_w1_def fail_env_def demo_defs key_defs store_defs handler_defs Let_def)

text \<open>A poll of the ticket the retry at six seconds was given answers progress 70.\<close>

lemma retry_poll_progress:
  "GetFuzzyQueryResult demo_ext None None (redis (snd (retry 6000))) 7000 ''r2''
     = Response 1 ''query in progress, poll again in 1 second'' (Progress ''r2'' 70)"
  by (simp add: retry_def fail_w1_def fail_env_def demo_defs key_defs store_defs handler_defs Let_def)

section \<open>Deduplication of search results\<close>

lemma doc_fields_unchecked: "doc_fields d = Some (t, ms) \<Longrightarrow> crawledat_unchecked d = Returned ms"
  by (auto simp: doc_fields_def crawledat_unchecked_def split: option.splits bson.splits)

lemma seen_ok_key:
  "seen_ok visited seen \<Longrightarrow> d' \<in> set visited \<Longrightarrow> doc_fields d' = Some (t, ms')
     \<Longrightarrow> map_of seen t \<noteq> None"
  unfolding seen_ok_def by blast

lemma seen_ok_skip:
  assumes "seen_ok visited seen" "doc_fields doc = None"
  shows "seen_ok (visited @ [doc]) seen"
  using assms unfolding seen_ok_def by fastforce

lemma seen_ok_entry:
  "seen_ok visited seen \<Longrightarrow> map_of seen t = Some d \<Longrightarrow>
     d \<in> set visited
     \<and> (\<exists>ms. doc_fields d = Some (t, ms)
           \<and> (\<forall>d' ms'. d' \<in> set visited \<and> doc_fields d' = Some (t, ms')
                  \<longrightarrow> unix_seconds ms' \<le> unix_seconds ms))"
  unfolding seen_ok_def by blast

lemma seen_okI:
  assumes "distinct (map fst seen)"
    and "\<And>t d. map_of seen t = Some d \<Longrightarrow>
           d \<in> set visited
           \<and> (\<exists>ms. doc_fields d = Some (t, ms)
                 \<and> (\<forall>d' ms'. d' \<in> set visited \<and> doc_fields d' = Some (t, ms')
                        \<longrightarrow> unix_seconds ms' \<le> unix_seconds ms))"
    and "\<And>d' t ms'. d' \<in> set visited \<Longrightarrow> doc_fields d' = Some (t, ms') \<Longrightarrow> map_of seen t \<noteq> None"
  shows "seen_ok visited seen"
  unfolding seen_ok_def using assms by blast

lemma seen_ok_keep:
  assumes ok: "seen_ok visited seen" and f: "doc_fields doc = Some (t, ms)"
    and e: "map_of seen t = Some e" "doc_fields e = Some (t, ms0)"
    and le: "unix_seconds ms \<le> unix_seconds ms0"
  shows "seen_ok (visited @ [doc]) seen"
proof (rule seen_okI)
  show "distinct (map fst seen)" using ok by (simp add: seen_ok_def)
next
  fix d' t' ms' assume a: "d' \<in> set (visited @ [doc])" "doc_fields d' = Some (t', ms')"
  show "map_of seen t' \<noteq> None"
  proof (cases "d' \<in> set visited")
    case True
    with ok a show ?thesis using seen_ok_key by blast
  next
    case False
    with a have "d' = doc" by simp
    with a f e(1) show ?thesis by simp
  qed
next
  fix t' d assume m: "map_of seen t' = Some d"
  with ok obtain ms1 where d: "d \<in> set visited" "doc_fields d = Some (t', ms1)"
    and mx: "\<forall>d' ms'. d' \<in> set visited \<and> doc_fields d' = Some (t', ms')
               \<longrightarrow> unix_seconds ms' \<le> unix_seconds ms1"
    using seen_ok_entry by blast
  have "\<forall>d' ms'. d' \<in> set (visited @ [doc]) \<and> doc_fields d' = Some (t', ms')
               \<longrightarrow> unix_seconds ms' \<le> unix_seconds ms1"
  proof (intro allI impI)
    fix d' ms' assume a: "d' \<in> set (visited @ [doc]) \<and> doc_fields d' = Some (t', ms')"
    show "unix_seconds ms' \<le> unix_seconds ms1"
    proof (cases "d' \<in> set visited")
      case True
      with a mx show ?thesis by blast
    next
      case False
      with a have "d' = doc" by simp
      with a f have tt: "t' = t" "ms' = ms" by simp_all
      with m e d(2) have "ms1 = ms0" by simp
      with le tt show ?thesis by simp
    qed
  qed
  with d show "d \<in> set (visited @ [doc])
       \<and> (\<exists>ms. doc_fields d = Some (t', ms)
             \<and> (\<forall>d' ms'. d' \<in> set (visited @ [doc]) \<and> doc_fields d' = Some (t', ms')
                    \<longrightarrow> unix_seconds ms' \<le> unix_seconds ms))"
    by auto
qed

lemma seen_ok_put:
  assumes ok: "seen_ok visited seen" and f: "doc_fields doc = Some (t, ms)"
    and e: "map_of seen t = None
            \<or> (\<exists>e ms0. map_of seen t = Some e \<and> doc_fields e = Some (t, ms0)
                   \<and> unix_seconds ms0 < unix_seconds ms)"
  shows "seen_ok (visited @ [doc]) (AList.update t doc seen)"
proof (rule seen_okI)
  show "distinct (map fst (AList.update t doc seen))"
    using ok by (simp add: seen_ok_def distinct_update)
next
  fix d' t' ms' assume a: "d' \<in> set (visited @ [doc])" "doc_fields d' = Some (t', ms')"
  show "map_of (AList.update t doc seen) t' \<noteq> None"
  proof (cases "d' \<in> set visited")
    case True
    with ok a have "map_of seen t' \<noteq> None" using seen_ok_key by blast
    then show ?thesis by (simp add: update_conv')
  next
    case False
    with a have "d' = doc" by simp
    with a f show ?thesis by (simp add: update_conv')
  qed
next
  fix t' d assume m: "map_of (AList.update t doc seen) t' = Some d"
  show "d \<in> set (visited @ [doc])
       \<and> (\<exists>ms. doc_fields d = Some (t', ms)
             \<and> (\<forall>d' ms'. d' \<in> set (visited @ [doc]) \<and> doc_fields d' = Some (t', ms')
                    \<longrightarrow> unix_seconds ms' \<le> unix_seconds ms))"
  proof (cases "t' = t")
    case True
    with m have dd: "d = doc" by (simp add: update_conv')
    have "\<forall>d' ms'. d' \<in> set (visited @ [doc]) \<and> doc_fields d' = Some (t, ms')
               \<longrightarrow> unix_seconds ms' \<le> unix_seconds ms"
    proof (intro allI impI)
      fix d' ms' assume a: "d' \<in> set (visited @ [doc]) \<and> doc_fields d' = Some (t, ms')"
      show "unix_seconds ms' \<le> unix_seconds ms"
      proof (cases "d' \<in> set visited")
        case False
        with a have "d' = doc" by simp
        with a f show ?thesis by simp
      next
        case v: True
        with a ok have "map_of seen t \<noteq> None" using seen_ok_key by blast
        with e obtain e0 ms0 where e0: "map_of seen t = Some e0" "doc_fields e0 = Some (t, ms0)"
          "unix_seconds ms0 < unix_seconds ms" by blast
        from seen_ok_entry [OF ok e0(1)] e0(2)
        have "\<forall>d' ms'. d' \<in> set visited \<and> doc_fields d' = Some (t, ms')
               \<longrightarrow> unix_seconds ms' \<le> unix_seconds ms0"
          by auto
        with a v have "unix_seconds ms' \<le> unix_seconds ms0" by blast
        with e0(3) show ?thesis by simp
      qed
    qed
    with dd True f show ?thesis by auto
  next
    case False
    with m have m': "map_of seen t' = Some d" by (simp add: update_conv')
    from seen_ok_entry [OF ok m'] obtain ms1 where d: "d \<in> set visited" "doc_fields d = Some (t', ms1)"
      and mx: "\<forall>d' ms'. d' \<in> set visited \<and> doc_fields d' = Some (t', ms')
                 \<longrightarrow> unix_seconds ms' \<le> unix_seconds ms1"
      by blast
    have "\<forall>d' ms'. d' \<in> set (visited @ [doc]) \<and> doc_fields d' = Some (t', ms')
               \<longrightarrow> unix_seconds ms' \<le> unix_seconds ms1"
      using mx f False by auto
    with d show ?thesis by auto
  qed
qed

lemma dedup_loop_ok:
  "seen_ok visited seen \<Longrightarrow>
   \<exists>seen'. dedup_loop docs seen = Returned seen' \<and> seen_ok (visited @ docs) seen'"
proof (induction docs arbitrary: visited seen)
  case Nil
  then show ?case by simp
next
  case (Cons doc docs)
  show ?case
  proof (cases "doc_fields doc")
    case None
    with Cons.prems have "seen_ok (visited @ [doc]) seen" by (intro seen_ok_skip)
    from Cons.IH [OF this] None show ?thesis by simp
  next
    case (Some p)
    obtain t ms where p: "p = (t, ms)" by (cases p)
    show ?thesis
    proof (cases "map_of seen t")
      case None
      with Cons.prems Some p have "seen_ok (visited @ [doc]) (AList.update t doc seen)"
        by (intro seen_ok_put) auto
      from Cons.IH [OF this] None Some p show ?thesis by simp
    next
      case e: (Some e)
      from seen_ok_entry [OF Cons.prems e] obtain ms0 where e0: "doc_fields e = Some (t, ms0)"
        by blast
      then have u: "crawledat_unchecked e = Returned ms0" by (rule doc_fields_unchecked)
      show ?thesis
      proof (cases "unix_seconds ms0 < unix_seconds ms")
        case True
        with Cons.prems Some p e e0 have "seen_ok (visited @ [doc]) (AList.update t doc seen)"
          by (intro seen_ok_put) auto
        from Cons.IH [OF this] True e u Some p show ?thesis by simp
      next
        case False
        with Cons.prems Some p e e0 have "seen_ok (visited @ [doc]) seen"
          by (intro seen_ok_keep [where ms = ms and ms0 = ms0 and e = e and t = t]) auto
        from Cons.IH [OF this] False e u Some p show ?thesis by simp
      qed
    qed
  qed
qed


lemma sort_by_crawledat_ok:
  assumes "\<forall>d \<in> set ds. crawledat_unchecked d \<noteq> Panicked"
  shows "\<exists>s. sort_by_crawledat ds = Returned s \<and> mset s = mset ds \<and> sorted (map sort_key_desc s)"
proof (cases "length ds < 2")
  case True
  then have "length (map sort_key_desc ds) \<le> 1" by simp
  then have "sorted (map sort_key_desc ds)" by (rule sorted01)
  with True show ?thesis by (simp add: sort_by_crawledat_def)
next
  case False
  with assms show ?thesis
    by (simp add: sort_by_crawledat_def list_all_iff sorted_sort_key)
qed

text \<open>
  What \<open>deduplicateAndSort\<close> does for a limit that is not negative, whatever the order of
  the map iteration: it does not panic; it returns at most \<open>limit\<close> documents, in
  descending order of crawl time, with distinct titles; each is a well-formed document of
  the input, and no well-formed input document of the same title falls into a later
  second (documents that lack the fields are left out without an error).
\<close>

lemma deduplicateAndSort_result:
  assumes lim: "0 \<le> limit" and perm: "\<And>seen. mset (iter seen) = mset (map snd seen)"
  shows "\<exists>r. deduplicateAndSort iter docs limit = Returned r
           \<and> int (length r) \<le> limit
           \<and> sorted (map sort_key_desc r)
           \<and> distinct (map title_of r)
           \<and> (\<forall>d \<in> set r. d \<in> set docs
                 \<and> (\<exists>t ms. doc_fields d = Some (t, ms)
                       \<and> (\<forall>d' \<in> set docs. \<forall>ms'. doc_fields d' = Some (t, ms')
                              \<longrightarrow> unix_seconds ms' \<le> unix_seconds ms)))"
proof -
  have "seen_ok [] []" by (simp add: seen_ok_def)
  from dedup_loop_ok [OF this, of docs]
  obtain seen where dl: "dedup_loop docs [] = Returned seen" and ok: "seen_ok docs seen"
    by auto
  from ok have dk: "distinct (map fst seen)" by (simp add: seen_ok_def)
  have ent: "\<And>t d. (t, d) \<in> set seen \<Longrightarrow>
       d \<in> set docs
       \<and> (\<exists>ms. doc_fields d = Some (t, ms)
             \<and> (\<forall>d' ms'. d' \<in> set docs \<and> doc_fields d' = Some (t, ms')
                    \<longrightarrow> unix_seconds ms' \<le> unix_seconds ms))"
    using seen_ok_entry [OF ok] dk by simp
  have setv: "set (iter seen) = snd ` set seen"
    using perm [of seen] by (metis mset_eq_setD set_map)
  have good: "\<forall>d \<in> set (iter seen). d \<in> set docs
                 \<and> (\<exists>t ms. doc_fields d = Some (t, ms)
                       \<and> (\<forall>d' \<in> set docs. \<forall>ms'. doc_fields d' = Some (t, ms')
                              \<longrightarrow> unix_seconds ms' \<le> unix_seconds ms))"
  proof
    fix d assume "d \<in> set (iter seen)"
    with setv obtain t where "(t, d) \<in> set seen" by auto
    from ent [OF this] show "d \<in> set docs
                 \<and> (\<exists>t ms. doc_fields d = Some (t, ms)
                       \<and> (\<forall>d' \<in> set docs. \<forall>ms'. doc_fields d' = Some (t, ms')
                              \<longrightarrow> unix_seconds ms' \<le> unix_seconds ms))"
      by blast
  qed
  then have "\<forall>d \<in> set (iter seen). crawledat_unchecked d \<noteq> Panicked"
    using doc_fields_unchecked by fastforce
  from sort_by_crawledat_ok [OF this]
  obtain s where srt: "sort_by_crawledat (iter seen) = Returned s"
    and ms: "mset s = mset (iter seen)" and so: "sorted (map sort_key_desc s)"
    by blast
  have tt: "\<And>t d. (t, d) \<in> set seen \<Longrightarrow> title_of d = Some t"
    using ent unfolding title_of_def by fastforce
  have eq: "map title_of (map snd seen) = map (\<lambda>p. Some (fst p)) seen"
    using tt by auto
  have d2: "distinct (map (\<lambda>p. Some (fst p)) seen)"
    using dk by (simp add: distinct_map comp_def inj_on_def)
  have "distinct (map title_of (map snd seen))" unfolding eq by (rule d2)
  moreover have "mset (map title_of s) = mset (map title_of (map snd seen))"
    using ms perm [of seen] by (metis mset_map)
  ultimately have ds: "distinct (map title_of s)"
    by (metis mset_eq_imp_distinct_iff)
  have sets: "set s = set (iter seen)" using ms by (rule mset_eq_setD)
  define r where "r = (if int (length s) > limit then take (nat limit) s else s)"
  have res: "deduplicateAndSort iter docs limit = Returned r"
    using lim by (simp add: deduplicateAndSort_def dl srt r_def)
  have len: "int (length r) \<le> limit" using lim by (auto simp: r_def)
  have sr: "sorted (map sort_key_desc r)"
    using so by (auto simp: r_def take_map [symmetric] sorted_wrt_take)
  have dr: "distinct (map title_of r)"
    using ds by (auto simp: r_def take_map [symmetric] distinct_take)
  have "set r \<subseteq> set s" by (auto simp: r_def dest: in_set_takeD)
  with good sets have gr: "\<forall>d \<in> set r. d \<in> set docs
                 \<and> (\<exists>t ms. doc_fields d = Some (t, ms)
                       \<and> (\<forall>d' \<in> set docs. \<forall>ms'. doc_fields d' = Some (t, ms')
                              \<longrightarrow> unix_seconds ms' \<le> unix_seconds ms))"
    by blast
  from res len sr dr gr show ?thesis by blast
qed


text \<open>
  C8 at two documents of one title crawled within the same second. The second is the
  later one (1999 ms against 1000 ms), but both instants are truncated to one second, so
  the later document is not "after" the kept one: the result keeps the older document.
\<close>

theorem deduplicateAndSort_keeps_older:
  "deduplicateAndSort (map snd) [hot ''a'' 1000, hot ''a'' 1999] 50 = Returned [hot ''a'' 1000]"
  by (simp add: deduplicateAndSort_def hot_def doc_fields_def crawledat_unchecked_def
        unix_seconds_def signed_divide_int_def sort_by_crawledat_def)


end
